theory Spec2Isabelle
  imports Complex_Main
begin


section \<open>Strings\<close>

text \<open>
  A Go string is a sequence of bytes, here a \<^typ>\<open>char list\<close>. The model takes the lines
  of the input and of the word lists to be ASCII. Every guess that reaches the scoring code
  has matched \<^verbatim>\<open>^[A-Za-z]{5}$\<close> after upper-casing, so a rune of it is one byte and
  \<^verbatim>\<open>range guess\<close> yields the positions 0, 1, 2, ... with the bytes. On ASCII bytes
  \<^verbatim>\<open>strings.ToUpper\<close> maps a-z to A-Z and leaves every other byte as it is, and
  \<^verbatim>\<open>strings.TrimSpace\<close> removes the six ASCII white-space bytes from both ends.
\<close>

definition lowercase :: string where
  "lowercase = ''abcdefghijklmnopqrstuvwxyz''"

definition uppercase :: string where
  "uppercase = ''ABCDEFGHIJKLMNOPQRSTUVWXYZ''"

definition upper_rune :: "char \<Rightarrow> char" where
  "upper_rune c = (case map_of (zip lowercase uppercase) c of Some u \<Rightarrow> u | None \<Rightarrow> c)"

definition ToUpper :: "string \<Rightarrow> string" where
  "ToUpper s = map upper_rune s"

definition isSpace :: "char \<Rightarrow> bool" where
  "isSpace c \<longleftrightarrow> c \<in> set [CHR 0x09, CHR 0x0A, CHR 0x0B, CHR 0x0C, CHR 0x0D, CHR '' '']"

definition TrimSpace :: "string \<Rightarrow> string" where
  "TrimSpace s = rev (dropWhile isSpace (rev (dropWhile isSpace s)))"

text \<open>The regular expression \<^verbatim>\<open>valid = ^[A-Za-z]{5}$\<close>.\<close>

definition valid :: "string \<Rightarrow> bool" where
  "valid s \<longleftrightarrow> length s = 5 \<and> list_all (\<lambda>c. c \<in> set (uppercase @ lowercase)) s"

section \<open>Reading the embedded word lists\<close>

text \<open>
  \<^verbatim>\<open>bufio.Scanner\<close> with its default split function \<^verbatim>\<open>ScanLines\<close>: a token is a line
  without its newline and without one carriage return before it; input that ends without
  a newline gives a last token when it is not empty. \<open>split_lines cur rest\<close> lists the
  tokens still to come, \<open>cur\<close> being the bytes of the line read so far. The scanner's limit
  of 64 KiB on a token is outside the model: the lines of the word lists hold five letters.
\<close>

definition dropCR :: "string \<Rightarrow> string" where
  "dropCR data = (if data \<noteq> [] \<and> last data = CHR 0x0D then butlast data else data)"

fun split_lines :: "string \<Rightarrow> string \<Rightarrow> string list" where
  "split_lines cur [] = (if cur = [] then [] else [dropCR cur])"
| "split_lines cur (c # cs) =
     (if c = CHR 0x0A then dropCR cur # split_lines [] cs else split_lines (cur @ [c]) cs)"

text \<open>
  The scanner: the tokens not yet delivered and the token that \<^verbatim>\<open>Text\<close> returns. A
  \<^verbatim>\<open>Scan\<close> at the end of the input returns false and leaves the empty token.
\<close>

record scanner =
  pending :: "string list"
  token :: string

definition NewScanner :: "string \<Rightarrow> scanner" where
  "NewScanner file = \<lparr>pending = split_lines [] file, token = []\<rparr>"

definition Scan :: "scanner \<Rightarrow> bool \<times> scanner" where
  "Scan s = (case pending s of
               [] \<Rightarrow> (False, s\<lparr>token := []\<rparr>)
             | t # ts \<Rightarrow> (True, \<lparr>pending = ts, token = t\<rparr>))"

definition Text :: "scanner \<Rightarrow> string" where
  "Text s = token s"

text \<open>
  \<^verbatim>\<open>guessesSet\<close>: every line of guesses.txt, upper-cased, is a key of the set.
\<close>

function guessesReader_loop :: "scanner \<Rightarrow> string set \<Rightarrow> string set" where
  "guessesReader_loop s validGuesses =
     (if fst (Scan s)
      then guessesReader_loop (snd (Scan s)) (insert (ToUpper (Text (snd (Scan s)))) validGuesses)
      else validGuesses)"
  by pat_completeness auto
termination
  by (relation "measure (\<lambda>(s, validGuesses). length (pending s))")
     (auto simp: Scan_def split: list.splits)

declare guessesReader_loop.simps [simp del]

definition guessesSet :: "string \<Rightarrow> string set" where
  "guessesSet guesses_txt = guessesReader_loop (NewScanner guesses_txt) {}"

section \<open>The game of the hard-mode implementation\<close>

text \<open>The three squares of the shareable score, as the bytes of the source file.\<close>

definition blackSquare :: string where
  "blackSquare = [CHR 0xC3, CHR 0xA2, CHR 0xC2, CHR 0xAC, CHR 0xE2, CHR 0x80, CHR 0xBA]"

definition yellowSquare :: string where
  "yellowSquare = [CHR 0xC3, CHR 0xB0, CHR 0xC5, CHR 0xB8, CHR 0xC5, CHR 0xB8, CHR 0xC2, CHR 0xA8]"

definition greenSquare :: string where
  "greenSquare = [CHR 0xC3, CHR 0xB0, CHR 0xC5, CHR 0xB8, CHR 0xC5, CHR 0xB8, CHR 0xC2, CHR 0xA9]"

record cell =
  color :: string
  letter :: string

text \<open>
  \<open>yellow\<close> is the Go map from runes to booleans; \<open>green\<close> is the array of five runes, the
  zero rune standing for a position without a hint.
\<close>

record hints =
  yellow :: "char \<rightharpoonup> bool"
  green :: "char list"

record game =
  day :: int
  currentTurn :: int
  turnsRemaining :: int
  complete :: bool
  won :: bool
  answer :: string
  validGuesses :: "string set"
  hardMode :: bool
  hints :: hints
  board :: "cell list list"

definition emptyRune :: char where
  "emptyRune = CHR 0x00"

text \<open>
  A result of type \<open>'a option\<close> is \<open>None\<close> when the Go code panics with an index out of
  range. \<open>set_cell b t i f\<close> is the assignment to a field of \<^verbatim>\<open>b[t][i]\<close>.
\<close>

definition set_cell :: "'a list list \<Rightarrow> int \<Rightarrow> nat \<Rightarrow> ('a \<Rightarrow> 'a) \<Rightarrow> 'a list list option" where
  "set_cell b t i f =
     (if 0 \<le> t \<and> nat t < length b \<and> i < length (b ! nat t)
      then Some (b[nat t := (b ! nat t)[i := f (b ! nat t ! i)]])
      else None)"

definition set_green :: "char list \<Rightarrow> nat \<Rightarrow> char \<Rightarrow> char list option" where
  "set_green gr i r = (if i < length gr then Some (gr[i := r]) else None)"

text \<open>
  The first loop of \<^verbatim>\<open>addGuess\<close> over the positions and runes of the guess. \<open>freq\<close> is
  the Go map from runes to counts, which reads as 0 at a key that it does not hold.
\<close>

fun addGuess_greens :: "(nat \<times> char) list \<Rightarrow> (char \<Rightarrow> int) \<Rightarrow> game \<Rightarrow> ((char \<Rightarrow> int) \<times> game) option" where
  "addGuess_greens [] freq g = Some (freq, g)"
| "addGuess_greens ((i, r) # rest) freq g =
     (if length (answer g) \<le> i then None
      else if answer g ! i = r then
        (case set_cell (board g) (currentTurn g) i (\<lambda>c. c\<lparr>color := greenSquare\<rparr>) of
           None \<Rightarrow> None
         | Some b \<Rightarrow>
             (case set_green (green (hints g)) i r of
                None \<Rightarrow> None
              | Some gr \<Rightarrow>
                  (case set_cell b (currentTurn g) i (\<lambda>c. c\<lparr>letter := [r]\<rparr>) of
                     None \<Rightarrow> None
                   | Some b' \<Rightarrow>
                       addGuess_greens rest (freq(r := freq r - 1))
                         (g\<lparr>hints := (hints g)\<lparr>green := gr\<rparr>, board := b'\<rparr>))))
      else
        (case set_cell (board g) (currentTurn g) i (\<lambda>c. c\<lparr>letter := [r]\<rparr>) of
           None \<Rightarrow> None
         | Some b' \<Rightarrow> addGuess_greens rest freq (g\<lparr>board := b'\<rparr>)))"

text \<open>The second loop: not green, the rune is in the answer, and there is room left.\<close>

fun addGuess_yellows :: "(nat \<times> char) list \<Rightarrow> (char \<Rightarrow> int) \<Rightarrow> game \<Rightarrow> ((char \<Rightarrow> int) \<times> game) option" where
  "addGuess_yellows [] freq g = Some (freq, g)"
| "addGuess_yellows ((i, r) # rest) freq g =
     (if length (answer g) \<le> i then None
      else if answer g ! i \<noteq> r \<and> r \<in> set (answer g) \<and> freq r > 0 then
        (case set_cell (board g) (currentTurn g) i (\<lambda>c. c\<lparr>color := yellowSquare\<rparr>) of
           None \<Rightarrow> None
         | Some b \<Rightarrow>
             (case set_cell b (currentTurn g) i (\<lambda>c. c\<lparr>letter := [r]\<rparr>) of
                None \<Rightarrow> None
              | Some b' \<Rightarrow>
                  addGuess_yellows rest (freq(r := freq r - 1))
                    (g\<lparr>hints := (hints g)\<lparr>yellow := (yellow (hints g))(r \<mapsto> True)\<rparr>, board := b'\<rparr>)))
      else addGuess_yellows rest freq g)"

definition answer_freq :: "string \<Rightarrow> char \<Rightarrow> int" where
  "answer_freq a = fold (\<lambda>r freq. freq(r := freq r + 1)) a (\<lambda>_. 0)"

definition addGuess :: "game \<Rightarrow> string \<Rightarrow> game option" where
  "addGuess g guess =
     (case addGuess_greens (enumerate 0 guess) (answer_freq (answer g)) g of
        None \<Rightarrow> None
      | Some (freq1, g1) \<Rightarrow>
          (case addGuess_yellows (enumerate 0 guess) freq1 g1 of
             None \<Rightarrow> None
           | Some (freq2, g2) \<Rightarrow>
               (let g3 = g2\<lparr>turnsRemaining := turnsRemaining g2 - 1\<rparr>;
                    g4 = g3\<lparr>currentTurn := currentTurn g3 + 1\<rparr>;
                    g5 = (if guess = answer g4 \<or> turnsRemaining g4 = 0
                          then g4\<lparr>complete := True\<rparr> else g4)
                in Some (if guess = answer g5 then g5\<lparr>won := True\<rparr> else g5))))"

text \<open>
  \<^verbatim>\<open>checkHints\<close>. The error value is \<open>None\<close> for nil. \<open>keys\<close> is the order in which
  \<^verbatim>\<open>range g.hints.yellow\<close> yields the keys of the map, which the Go runtime chooses anew
  at every loop. A letter of the hints is an ASCII letter, so \<^verbatim>\<open>strings.Contains\<close> of
  its one-byte string is membership.
\<close>

datatype hint_error = MustContain char | PositionMustContain nat char

fun checkHints_yellows :: "char list \<Rightarrow> string \<Rightarrow> hint_error option" where
  "checkHints_yellows [] guess = None"
| "checkHints_yellows (l # rest) guess =
     (if l \<notin> set guess then Some (MustContain l)
      else checkHints_yellows rest guess)"

fun checkHints_greens :: "(nat \<times> char) list \<Rightarrow> string \<Rightarrow> hint_error option option" where
  "checkHints_greens [] guess = Some None"
| "checkHints_greens ((i, greenHint) # rest) guess =
     (if greenHint \<noteq> emptyRune then
        (if length guess \<le> i then None
         else if greenHint \<noteq> guess ! i then Some (Some (PositionMustContain i greenHint))
         else checkHints_greens rest guess)
      else checkHints_greens rest guess)"

definition checkHints :: "char list \<Rightarrow> game \<Rightarrow> string \<Rightarrow> hint_error option option" where
  "checkHints keys g guess =
     (case checkHints_yellows keys guess of
        Some err \<Rightarrow> Some (Some err)
      | None \<Rightarrow> checkHints_greens (enumerate 0 (green (hints g))) guess)"

text \<open>
  \<^verbatim>\<open>answerForDay\<close> by scanning lines. Go's \<^verbatim>\<open>int\<close> has 64 bits and \<^verbatim>\<open>i++\<close> wraps
  around, so the loop \<^verbatim>\<open>for i := 0; i <= day; i++\<close> may not end: the result \<open>None\<close>
  of \<open>answerForDay_loop\<close>, and of \<open>answerForDay\<close> and \<open>newGame\<close> after it, says that the
  call does not return.
\<close>

definition int64 :: "int \<Rightarrow> int" where
  "int64 x = (x + 2 ^ 63) mod 2 ^ 64 - 2 ^ 63"

partial_function (option) answerForDay_loop :: "int \<Rightarrow> int \<Rightarrow> scanner \<Rightarrow> scanner option" where
  "answerForDay_loop i d s =
     (if i \<le> d then answerForDay_loop (int64 (i + 1)) d (snd (Scan s)) else Some s)"

declare answerForDay_loop.simps [code]

definition answerForDay :: "string \<Rightarrow> int \<Rightarrow> string option" where
  "answerForDay answers_txt d =
     (case answerForDay_loop 0 d (NewScanner answers_txt) of
        None \<Rightarrow> None
      | Some s \<Rightarrow> Some (ToUpper (Text s)))"

definition newBoard :: "cell list list" where
  "newBoard = replicate 6 (replicate 5 \<lparr>color = blackSquare, letter = ''_''\<rparr>)"

text \<open>
  \<open>game_literal\<close> is the struct that \<^verbatim>\<open>newGame\<close> returns, given what \<^verbatim>\<open>answerForDay\<close> and
  \<^verbatim>\<open>guessesSet\<close> have read.
\<close>

definition game_literal :: "int \<Rightarrow> bool \<Rightarrow> string \<Rightarrow> string set \<Rightarrow> game" where
  "game_literal d hardmode a dict =
     \<lparr>day = d, currentTurn = 0, turnsRemaining = 6, complete = False, won = False,
      answer = a, validGuesses = dict, hardMode = hardmode,
      hints = \<lparr>yellow = Map.empty, green = replicate 5 emptyRune\<rparr>,
      board = newBoard\<rparr>"

definition newGame :: "string \<Rightarrow> string \<Rightarrow> int \<Rightarrow> bool \<Rightarrow> game option" where
  "newGame answers_txt guesses_txt d hardmode =
     (case answerForDay answers_txt d of
        None \<Rightarrow> None
      | Some a \<Rightarrow> Some (game_literal d hardmode a (guessesSet guesses_txt)))"

text \<open>
  One round of the loop of \<^verbatim>\<open>main\<close> on a line of the standard input: the message of a
  rejected line, if any, and the game after it. \<open>range_keys\<close> gives the order in which the
  runtime ranges over the map of yellow hints; another order changes only which missing
  letter the message names.
\<close>

datatype rejection = InvalidFormat | NotInWordList | HardMode hint_error

definition main_step :: "((char \<rightharpoonup> bool) \<Rightarrow> char list) \<Rightarrow> game \<Rightarrow> string \<Rightarrow> (rejection option \<times> game) option" where
  "main_step range_keys g text =
     (let guess = ToUpper (TrimSpace text) in
      if \<not> valid guess then Some (Some InvalidFormat, g)
      else if guess \<notin> validGuesses g then Some (Some NotInWordList, g)
      else if hardMode g then
        (case checkHints (range_keys (yellow (hints g))) g guess of
           None \<Rightarrow> None
         | Some (Some err) \<Rightarrow> Some (Some (HardMode err), g)
         | Some None \<Rightarrow> map_option (Pair None) (addGuess g guess))
      else map_option (Pair None) (addGuess g guess))"

text \<open>The loop \<^verbatim>\<open>for !g.complete && s.Scan()\<close> over the lines of the standard input.\<close>

fun main_loop :: "((char \<rightharpoonup> bool) \<Rightarrow> char list) \<Rightarrow> game \<Rightarrow> string list \<Rightarrow> game option" where
  "main_loop range_keys g [] = Some g"
| "main_loop range_keys g (text # stdin) =
     (if complete g then Some g
      else (case main_step range_keys g text of
              None \<Rightarrow> None
            | Some (_, g') \<Rightarrow> main_loop range_keys g' stdin))"

text \<open>
  The evaluation of a guess is the row of colours that \<^verbatim>\<open>addGuess\<close> leaves on the board:
  green for correct, yellow for present, black for absent. A game is \<open>ready\<close> when the row
  of its current turn is as \<^verbatim>\<open>newGame\<close> made it.
\<close>

definition evaluation :: "game \<Rightarrow> string \<Rightarrow> string list option" where
  "evaluation g guess =
     map_option (\<lambda>g'. map color (board g' ! nat (currentTurn g))) (addGuess g guess)"

definition ready :: "game \<Rightarrow> bool" where
  "ready g \<longleftrightarrow> 0 \<le> currentTurn g \<and> nat (currentTurn g) < length (board g)
     \<and> board g ! nat (currentTurn g) = replicate 5 \<lparr>color = blackSquare, letter = ''_''\<rparr>
     \<and> length (green (hints g)) = 5"

section \<open>The first implementation (termle.go)\<close>

text \<open>
  The functions \<^verbatim>\<open>green\<close>, \<^verbatim>\<open>yellow\<close> and \<^verbatim>\<open>black\<close> of the source wrap a letter in
  terminal colours; the board of this implementation holds the wrapped letters.
\<close>

definition ansi_green :: "string \<Rightarrow> string" where
  "ansi_green l = CHR 0x1B # ''[37;102m'' @ l @ CHR 0x1B # ''[0m''"

definition ansi_yellow :: "string \<Rightarrow> string" where
  "ansi_yellow l = CHR 0x1B # ''[37;103m'' @ l @ CHR 0x1B # ''[0m''"

definition ansi_black :: "string \<Rightarrow> string" where
  "ansi_black l = CHR 0x1B # ''[37;100m'' @ l @ CHR 0x1B # ''[0m''"

definition termle_newBoard :: "string list list" where
  "termle_newBoard = replicate 6 (replicate 5 (ansi_black ''_''))"

fun board_addGuess_loop :: "(nat \<times> char) list \<Rightarrow> string list list \<Rightarrow> int \<Rightarrow> string \<Rightarrow> string list list option" where
  "board_addGuess_loop [] b turn a = Some b"
| "board_addGuess_loop ((i, c) # rest) b turn a =
     (if length a \<le> i then None
      else (case set_cell b turn i
                   (\<lambda>_. if c = a ! i then ansi_green [c]
                         else if c \<in> set a then ansi_yellow [c]
                         else ansi_black [c]) of
              None \<Rightarrow> None
            | Some b' \<Rightarrow> board_addGuess_loop rest b' turn a))"

definition board_addGuess :: "string list list \<Rightarrow> int \<Rightarrow> string \<Rightarrow> string \<Rightarrow> string list list option" where
  "board_addGuess b turn guess a = board_addGuess_loop (enumerate 0 guess) b turn a"

text \<open>
  The variables of \<^verbatim>\<open>main\<close> in termle.go that a round of its loop changes, and one round
  of the loop: the message of a rejected line, whether \<^verbatim>\<open>main\<close> returns, and the
  variables afterwards.
\<close>

record termle_vars =
  t_b :: "string list list"
  t_currentTurn :: int
  t_turnsRemaining :: int

datatype flow = Continues | Returns

definition termle_main_step :: "string set \<Rightarrow> string \<Rightarrow> termle_vars \<Rightarrow> string \<Rightarrow> (rejection option \<times> flow \<times> termle_vars) option" where
  "termle_main_step dict a v text =
     (let guess = ToUpper (TrimSpace text) in
      if \<not> valid guess then Some (Some InvalidFormat, Continues, v)
      else if guess \<notin> dict then Some (Some NotInWordList, Continues, v)
      else (case board_addGuess (t_b v) (t_currentTurn v) guess a of
              None \<Rightarrow> None
            | Some b' \<Rightarrow>
                if guess = a then Some (None, Returns, v\<lparr>t_b := b'\<rparr>)
                else
                  (let v' = v\<lparr>t_b := b', t_currentTurn := t_currentTurn v + 1,
                                t_turnsRemaining := t_turnsRemaining v - 1\<rparr>
                   in Some (None, if t_turnsRemaining v' = 0 then Returns else Continues, v'))))"

text \<open>
  \<^verbatim>\<open>answerForDay\<close> of termle.go seeks to \<^verbatim>\<open>int64(day*7)\<close> in the embedded file and
  reads five bytes. The product wraps around in \<^verbatim>\<open>int\<close>, and the conversion keeps it. The
  seek fails outside the file, the read fails at its end, and the code panics at either
  error (\<open>None\<close>); a short read leaves zero bytes in the buffer.
\<close>

definition termle_answerForDay :: "string \<Rightarrow> int \<Rightarrow> string option" where
  "termle_answerForDay answers_txt d =
     (let off = int64 (int64 (d * 7)) in
      if off < 0 \<or> int (length answers_txt) < off then None
      else if int (length answers_txt) \<le> off then None
      else (let n = min 5 (length answers_txt - nat off)
            in Some (ToUpper (take n (drop (nat off) answers_txt) @ replicate (5 - n) (CHR 0x00)))))"

section \<open>The day of the session\<close>

text \<open>
  A \<^verbatim>\<open>time.Time\<close> is an instant, in seconds and nanoseconds since 1970-01-01T00:00:00Z,
  with the offset in seconds east of UTC that its location has at that instant.
  \<^verbatim>\<open>time.Now()\<close> is an input: the instant of the call, in the local time zone. The
  calendar is the proleptic Gregorian one of package time; months are numbered from 1.
\<close>

record time =
  unix :: int
  nsec :: int
  offset :: int

definition days_from_civil :: "int \<Rightarrow> int \<Rightarrow> int \<Rightarrow> int" where
  "days_from_civil y m d =
     (let y' = (if m \<le> 2 then y - 1 else y);
          era = y' div 400;
          yoe = y' - era * 400;
          doy = (153 * (if m > 2 then m - 3 else m + 9) + 2) div 5 + d - 1;
          doe = yoe * 365 + yoe div 4 - yoe div 100 + doy
      in era * 146097 + doe - 719468)"

definition civil_from_days :: "int \<Rightarrow> int \<times> int \<times> int" where
  "civil_from_days z =
     (let z' = z + 719468;
          era = z' div 146097;
          doe = z' - era * 146097;
          yoe = (doe - doe div 1460 + doe div 36524 - doe div 146096) div 365;
          doy = doe - (365 * yoe + yoe div 4 - yoe div 100);
          mp = (5 * doy + 2) div 153;
          d = doy - (153 * mp + 2) div 5 + 1;
          m = (if mp < 10 then mp + 3 else mp - 9)
      in (if m \<le> 2 then yoe + era * 400 + 1 else yoe + era * 400, m, d))"

definition UTC :: "time \<Rightarrow> time" where
  "UTC t = t\<lparr>offset := 0\<rparr>"

definition Date :: "time \<Rightarrow> int \<times> int \<times> int" where
  "Date t = civil_from_days ((unix t + offset t) div 86400)"

text \<open>\<^verbatim>\<open>time.Date(y, m, d, 0, 0, 0, 0, time.UTC)\<close>, for a month and a day in range.\<close>

definition time_Date :: "int \<Rightarrow> int \<Rightarrow> int \<Rightarrow> time" where
  "time_Date y m d = \<lparr>unix = days_from_civil y m d * 86400, nsec = 0, offset = 0\<rparr>"

definition firstDay :: time where
  "firstDay = time_Date 2021 6 19"

text \<open>
  A \<^verbatim>\<open>time.Duration\<close> is a signed 64-bit count of nanoseconds; \<^verbatim>\<open>Sub\<close> saturates.
  Go's integer division \<open>quot\<close> and remainder \<open>rem\<close> truncate toward zero, as does the
  conversion \<open>trunc\<close> of a float to an int. \<^verbatim>\<open>Hours\<close> is computed in float64; the
  model computes it in the reals, which is the same for a whole number of hours.
\<close>

definition Sub :: "time \<Rightarrow> time \<Rightarrow> int" where
  "Sub t u = max (- (2 ^ 63)) (min (2 ^ 63 - 1) ((unix t - unix u) * 1000000000 + (nsec t - nsec u)))"

definition quot :: "int \<Rightarrow> int \<Rightarrow> int" where
  "quot a b = sgn a * sgn b * (\<bar>a\<bar> div \<bar>b\<bar>)"

definition rem :: "int \<Rightarrow> int \<Rightarrow> int" where
  "rem a b = a - b * quot a b"

definition Hour :: int where
  "Hour = 60 * 60 * 1000000000"

definition Hours :: "int \<Rightarrow> real" where
  "Hours d = of_int (quot d Hour) + of_int (rem d Hour) / (60 * 60 * 1000000000)"

definition trunc :: "real \<Rightarrow> int" where
  "trunc x = (if 0 \<le> x then \<lfloor>x\<rfloor> else \<lceil>x\<rceil>)"

definition daysSinceFirstWordle :: "time \<Rightarrow> int" where
  "daysSinceFirstWordle now =
     (case Date now of
        (y, m, d) \<Rightarrow> (let today = time_Date y m d in trunc (Hours (Sub today firstDay) / 24)))"

definition currentDay :: "time \<Rightarrow> int" where
  "currentDay now = trunc (Hours (Sub (UTC now) firstDay) / 24) - 1"

section \<open>The two loops of addGuess on the row of the current turn\<close>

text \<open>
  One round of the first and of the second loop of \<^verbatim>\<open>addGuess\<close>, on the counts, the row of
  the current turn and the hints alone.
\<close>

definition green_step :: "string \<Rightarrow> nat \<times> char \<Rightarrow> (char \<Rightarrow> int) \<times> cell list \<times> char list \<Rightarrow> (char \<Rightarrow> int) \<times> cell list \<times> char list" where
  "green_step a p st =
     (case p of (i, r) \<Rightarrow> (case st of (freq, row, gr) \<Rightarrow>
        if a ! i = r
        then (freq(r := freq r - 1), row[i := (row ! i)\<lparr>color := greenSquare, letter := [r]\<rparr>], gr[i := r])
        else (freq, row[i := (row ! i)\<lparr>letter := [r]\<rparr>], gr)))"

definition yellow_step :: "string \<Rightarrow> nat \<times> char \<Rightarrow> (char \<Rightarrow> int) \<times> cell list \<times> (char \<rightharpoonup> bool) \<Rightarrow> (char \<Rightarrow> int) \<times> cell list \<times> (char \<rightharpoonup> bool)" where
  "yellow_step a p st =
     (case p of (i, r) \<Rightarrow> (case st of (freq, row, ys) \<Rightarrow>
        if a ! i \<noteq> r \<and> r \<in> set a \<and> freq r > 0
        then (freq(r := freq r - 1), row[i := (row ! i)\<lparr>color := yellowSquare, letter := [r]\<rparr>], ys(r \<mapsto> True))
        else (freq, row, ys)))"

text \<open>One round of the loop of \<^verbatim>\<open>board.addGuess\<close> of termle.go, on the row of the turn.\<close>

definition board_step :: "string \<Rightarrow> nat \<times> char \<Rightarrow> string list \<Rightarrow> string list" where
  "board_step a p row =
     (case p of (i, c) \<Rightarrow>
        row[i := (if c = a ! i then ansi_green [c]
                  else if c \<in> set a then ansi_yellow [c]
                  else ansi_black [c])])"

section \<open>Notions for stating the claims about the session\<close>

text \<open>
  The guesses that the loop of \<^verbatim>\<open>main\<close> accepts, in order: the lines that pass every check
  and reach \<^verbatim>\<open>addGuess\<close>, upper-cased and trimmed, until the game is complete or the code
  panics.
\<close>

fun accepted_guesses :: "((char \<rightharpoonup> bool) \<Rightarrow> char list) \<Rightarrow> game \<Rightarrow> string list \<Rightarrow> string list" where
  "accepted_guesses range_keys g [] = []"
| "accepted_guesses range_keys g (text # stdin) =
     (if complete g then []
      else (case main_step range_keys g text of
              None \<Rightarrow> []
            | Some (Some rejected, g') \<Rightarrow> accepted_guesses range_keys g' stdin
            | Some (None, g') \<Rightarrow> ToUpper (TrimSpace text) # accepted_guesses range_keys g' stdin))"

text \<open>
  The invariant of the game between two rounds of the loop: the counters, the shape of
  the board with the rows from the current turn on still as \<^verbatim>\<open>newGame\<close> made them, and
  the meaning of \<open>complete\<close>.
\<close>

definition game_inv :: "game \<Rightarrow> bool" where
  "game_inv g \<longleftrightarrow>
     0 \<le> currentTurn g \<and> currentTurn g \<le> 6 \<and> currentTurn g + turnsRemaining g = 6
     \<and> length (board g) = 6
     \<and> (\<forall>j. nat (currentTurn g) \<le> j \<and> j < 6 \<longrightarrow>
           board g ! j = replicate 5 \<lparr>color = blackSquare, letter = ''_''\<rparr>)
     \<and> length (green (hints g)) = 5
     \<and> (complete g \<longleftrightarrow> won g \<or> turnsRemaining g = 0)"

text \<open>
  Modelled from the spec: the embedded file answers.txt is not among the sources. The
  specification describes it as a fixed-width record file, one answer of five bytes and a
  line-ending delimiter of two bytes per record, so that the answer of day \<open>d\<close> starts at
  offset \<open>d * 7\<close>; the two bytes are a carriage return and a newline.
\<close>

definition fixed_width_records :: "string list \<Rightarrow> string" where
  "fixed_width_records ws = concat (map (\<lambda>w. w @ [CHR 0x0D, CHR 0x0A]) ws)"

section \<open>Scoring a guess\<close>

lemma length_green_step [simp]:
  "length (fst (snd (green_step a p st))) = length (fst (snd st))"
  "length (snd (snd (green_step a p st))) = length (snd (snd st))"
  by (auto simp: green_step_def split: prod.splits)

lemma length_yellow_step [simp]:
  "length (fst (snd (yellow_step a p st))) = length (fst (snd st))"
  by (auto simp: yellow_step_def split: prod.splits)

lemma addGuess_greens_fold:
  assumes "0 \<le> currentTurn g" "nat (currentTurn g) < length (board g)"
    and "\<forall>(i, r) \<in> set ps. i < length (answer g) \<and> i < length (board g ! nat (currentTurn g))
           \<and> i < length (green (hints g))"
  shows "addGuess_greens ps freq g =
     Some (case fold (green_step (answer g)) ps (freq, board g ! nat (currentTurn g), green (hints g)) of
             (f, row, gr) \<Rightarrow>
               (f, g\<lparr>hints := (hints g)\<lparr>green := gr\<rparr>, board := (board g)[nat (currentTurn g) := row]\<rparr>))"
  using assms
proof (induction ps arbitrary: freq g)
  case Nil
  then show ?case by simp
next
  case (Cons p ps)
  obtain i r where p: "p = (i, r)" by (cases p)
  define row where "row = board g ! nat (currentTurn g)"
  define f1 where "f1 = (if answer g ! i = r then freq(r := freq r - 1) else freq)"
  define row1 where "row1 = (if answer g ! i = r
      then row[i := (row ! i)\<lparr>color := greenSquare, letter := [r]\<rparr>]
      else row[i := (row ! i)\<lparr>letter := [r]\<rparr>])"
  define gr1 where "gr1 = (if answer g ! i = r then (green (hints g))[i := r] else green (hints g))"
  define g1 where "g1 = g\<lparr>hints := (hints g)\<lparr>green := gr1\<rparr>,
        board := (board g)[nat (currentTurn g) := row1]\<rparr>"
  have len: "length row1 = length row" "length gr1 = length (green (hints g))"
    by (simp_all add: row1_def gr1_def)
  have step: "addGuess_greens (p # ps) freq g = addGuess_greens ps f1 g1"
    using Cons.prems
    by (simp add: p set_cell_def set_green_def g1_def row_def f1_def row1_def gr1_def)
  have ih: "addGuess_greens ps f1 g1 =
        Some (case fold (green_step (answer g)) ps (f1, row1, gr1) of
             (f, row', gr) \<Rightarrow>
               (f, g\<lparr>hints := (hints g)\<lparr>green := gr\<rparr>, board := (board g)[nat (currentTurn g) := row']\<rparr>))"
    using Cons.IH[of g1 f1] Cons.prems len
    by (simp add: p g1_def row_def)
  have fold_eq: "fold (green_step (answer g)) (p # ps) (freq, board g ! nat (currentTurn g), green (hints g))
      = fold (green_step (answer g)) ps (f1, row1, gr1)"
    by (simp add: p green_step_def f1_def row1_def gr1_def row_def)
  show ?case
    unfolding step ih fold_eq by (rule refl)
qed

lemma addGuess_yellows_fold:
  assumes "0 \<le> currentTurn g" "nat (currentTurn g) < length (board g)"
    and "\<forall>(i, r) \<in> set ps. i < length (answer g) \<and> i < length (board g ! nat (currentTurn g))"
  shows "addGuess_yellows ps freq g =
     Some (case fold (yellow_step (answer g)) ps (freq, board g ! nat (currentTurn g), yellow (hints g)) of
             (f, row, ys) \<Rightarrow>
               (f, g\<lparr>hints := (hints g)\<lparr>yellow := ys\<rparr>, board := (board g)[nat (currentTurn g) := row]\<rparr>))"
  using assms
proof (induction ps arbitrary: freq g)
  case Nil
  then show ?case by simp
next
  case (Cons p ps)
  obtain i r where p: "p = (i, r)" by (cases p)
  define row where "row = board g ! nat (currentTurn g)"
  define fires where "fires \<longleftrightarrow> answer g ! i \<noteq> r \<and> r \<in> set (answer g) \<and> freq r > 0"
  define f1 where "f1 = (if fires then freq(r := freq r - 1) else freq)"
  define row1 where "row1 = (if fires
      then row[i := (row ! i)\<lparr>color := yellowSquare, letter := [r]\<rparr>] else row)"
  define ys1 where "ys1 = (if fires then (yellow (hints g))(r \<mapsto> True) else yellow (hints g))"
  define g1 where "g1 = g\<lparr>hints := (hints g)\<lparr>yellow := ys1\<rparr>,
        board := (board g)[nat (currentTurn g) := row1]\<rparr>"
  have len: "length row1 = length row"
    by (simp_all add: row1_def)
  have step: "addGuess_yellows (p # ps) freq g = addGuess_yellows ps f1 g1"
    using Cons.prems
    by (cases fires) (auto simp add: p set_cell_def g1_def row_def f1_def row1_def ys1_def fires_def)
  have ih: "addGuess_yellows ps f1 g1 =
        Some (case fold (yellow_step (answer g)) ps (f1, row1, ys1) of
             (f, row', ys) \<Rightarrow>
               (f, g\<lparr>hints := (hints g)\<lparr>yellow := ys\<rparr>, board := (board g)[nat (currentTurn g) := row']\<rparr>))"
    using Cons.IH[of g1 f1] Cons.prems len
    by (simp add: p g1_def row_def)
  have fold_eq: "fold (yellow_step (answer g)) (p # ps) (freq, board g ! nat (currentTurn g), yellow (hints g))
      = fold (yellow_step (answer g)) ps (f1, row1, ys1)"
    by (cases fires) (auto simp add: p yellow_step_def f1_def row1_def ys1_def row_def fires_def)
  show ?case
    unfolding step ih fold_eq by (rule refl)
qed

lemma fold_green_lengths [simp]:
  "length (fst (snd (fold (green_step a) ps st))) = length (fst (snd st))"
  "length (snd (snd (fold (green_step a) ps st))) = length (snd (snd st))"
  by (induction ps arbitrary: st) simp_all

lemma fold_yellow_length [simp]:
  "length (fst (snd (fold (yellow_step a) ps st))) = length (fst (snd st))"
  by (induction ps arbitrary: st) simp_all

lemma answer_freq_count: "answer_freq a c = int (count_list a c)"
proof -
  have "fold (\<lambda>r freq. freq(r := freq r + 1)) a f c = f c + int (count_list a c)" for f
    by (induction a arbitrary: f) auto
  then show ?thesis by (simp add: answer_freq_def)
qed

lemma count_list_card: "count_list xs x = card {i. i < length xs \<and> xs ! i = x}"
proof -
  have "{i. i < length xs \<and> x = xs ! i} = {i. i < length xs \<and> xs ! i = x}" by auto
  then show ?thesis
    by (simp add: count_list_eq_length_filter length_filter_conv_card)
qed

lemma card_less_Suc_Collect:
  "card {i. i < Suc n \<and> P i} = card {i. i < n \<and> P i} + (if P n then 1 else 0)"
proof -
  have fin: "finite {i. i < n \<and> P i}" by simp
  have "{i. i < Suc n \<and> P i} = (if P n then insert n {i. i < n \<and> P i} else {i. i < n \<and> P i})"
    by (auto simp: less_Suc_eq)
  then show ?thesis using fin by simp
qed

text \<open>The state after the first loop, position by position.\<close>

lemma green_fold_state:
  assumes "length xs \<le> length row"
  shows "\<exists>f' row' gr'. fold (green_step a) (enumerate 0 xs) (f, row, gr) = (f', row', gr')
     \<and> length row' = length row \<and> length gr' = length gr
     \<and> (\<forall>i < length row. row' ! i =
          (if i < length xs
           then (if a ! i = xs ! i then (row ! i)\<lparr>color := greenSquare, letter := [xs ! i]\<rparr>
                 else (row ! i)\<lparr>letter := [xs ! i]\<rparr>)
           else row ! i))
     \<and> (\<forall>i < length gr. gr' ! i = (if i < length xs \<and> a ! i = xs ! i then xs ! i else gr ! i))
     \<and> (\<forall>c. f' c = f c - int (card {i. i < length xs \<and> xs ! i = c \<and> a ! i = c}))"
  using assms
proof (induction xs rule: rev_induct)
  case Nil
  then show ?case by simp
next
  case (snoc x xs)
  then obtain f' row' gr' where
    st: "fold (green_step a) (enumerate 0 xs) (f, row, gr) = (f', row', gr')"
    and len: "length row' = length row" "length gr' = length gr"
    and rows: "\<forall>i < length row. row' ! i =
          (if i < length xs
           then (if a ! i = xs ! i then (row ! i)\<lparr>color := greenSquare, letter := [xs ! i]\<rparr>
                 else (row ! i)\<lparr>letter := [xs ! i]\<rparr>)
           else row ! i)"
    and grs: "\<forall>i < length gr. gr' ! i = (if i < length xs \<and> a ! i = xs ! i then xs ! i else gr ! i)"
    and fs: "\<forall>c. f' c = f c - int (card {i. i < length xs \<and> xs ! i = c \<and> a ! i = c})"
    by auto
  have n: "length xs < length row" using snoc.prems by simp
  have step: "fold (green_step a) (enumerate 0 (xs @ [x])) (f, row, gr) =
      green_step a (length xs, x) (f', row', gr')"
    by (simp add: enumerate_append_eq st)
  have card_eq: "card {i. i < Suc (length xs) \<and> (xs @ [x]) ! i = c \<and> a ! i = c} =
      card {i. i < length xs \<and> xs ! i = c \<and> a ! i = c} + (if x = c \<and> a ! length xs = c then 1 else 0)" for c
  proof -
    have "{i. i < length xs \<and> (xs @ [x]) ! i = c \<and> a ! i = c} = {i. i < length xs \<and> xs ! i = c \<and> a ! i = c}"
      by (auto simp: nth_append)
    then show ?thesis
      by (simp add: card_less_Suc_Collect[where P = "\<lambda>i. (xs @ [x]) ! i = c \<and> a ! i = c"])
  qed
  define n where "n = length xs"
  define f2 where "f2 = (if a ! n = x then f'(x := f' x - 1) else f')"
  define row2 where "row2 = row'[n := (if a ! n = x
       then (row' ! n)\<lparr>color := greenSquare, letter := [x]\<rparr> else (row' ! n)\<lparr>letter := [x]\<rparr>)]"
  define gr2 where "gr2 = (if a ! n = x then gr'[n := x] else gr')"
  have res: "fold (green_step a) (enumerate 0 (xs @ [x])) (f, row, gr) = (f2, row2, gr2)"
    unfolding step by (simp add: green_step_def f2_def row2_def gr2_def n_def)
  have l: "length row2 = length row" "length gr2 = length gr"
    using len by (simp_all add: row2_def gr2_def)
  have r: "row2 ! i =
          (if i < length (xs @ [x])
           then (if a ! i = (xs @ [x]) ! i then (row ! i)\<lparr>color := greenSquare, letter := [(xs @ [x]) ! i]\<rparr>
                 else (row ! i)\<lparr>letter := [(xs @ [x]) ! i]\<rparr>)
           else row ! i)" if "i < length row" for i
  proof -
    consider "i < n" | "i = n" | "n < i" by linarith
    then show ?thesis
    proof cases
      case 1
      then show ?thesis using rows that len by (simp add: row2_def n_def nth_append)
    next
      case 2
      then show ?thesis using rows that len n by (simp add: row2_def n_def nth_append)
    next
      case 3
      then show ?thesis using rows that len by (simp add: row2_def n_def nth_append)
    qed
  qed
  have g: "gr2 ! i = (if i < length (xs @ [x]) \<and> a ! i = (xs @ [x]) ! i then (xs @ [x]) ! i else gr ! i)"
    if "i < length gr" for i
  proof -
    consider "i < n" | "i = n" | "n < i" by linarith
    then show ?thesis
    proof cases
      case 1
      then show ?thesis using grs that len by (simp add: gr2_def n_def nth_append)
    next
      case 2
      then show ?thesis using grs that len by (simp add: gr2_def n_def nth_append)
    next
      case 3
      then show ?thesis using grs that len by (simp add: gr2_def n_def nth_append)
    qed
  qed
  have fq: "f2 c = f c - int (card {i. i < length (xs @ [x]) \<and> (xs @ [x]) ! i = c \<and> a ! i = c})" for c
    using fs by (simp add: card_eq f2_def n_def)
  show ?case
    unfolding res using l r g fq by blast
qed


text \<open>The state after the second loop: \<open>F\<close> is the set of positions that it colours.\<close>

lemma yellow_fold_state:
  assumes "length xs \<le> length row"
  shows "\<exists>f' row' ys' F. fold (yellow_step a) (enumerate 0 xs) (f, row, ys) = (f', row', ys')
     \<and> F \<subseteq> {i. i < length xs} \<and> length row' = length row
     \<and> (\<forall>i < length row. row' ! i =
          (if i \<in> F then (row ! i)\<lparr>color := yellowSquare, letter := [xs ! i]\<rparr> else row ! i))
     \<and> (\<forall>c. f' c = f c - int (card {i \<in> F. xs ! i = c}))
     \<and> (\<forall>i < length xs. i \<in> F \<longleftrightarrow>
          a ! i \<noteq> xs ! i \<and> xs ! i \<in> set a
          \<and> 0 < f (xs ! i) - int (card {j \<in> F. j < i \<and> xs ! j = xs ! i}))
     \<and> (\<forall>c. ys' c = (if \<exists>i \<in> F. xs ! i = c then Some True else ys c))"
  using assms
proof (induction xs rule: rev_induct)
  case Nil
  then show ?case by simp
next
  case (snoc x xs)
  then obtain f' row' ys' F where
    st: "fold (yellow_step a) (enumerate 0 xs) (f, row, ys) = (f', row', ys')"
    and F: "F \<subseteq> {i. i < length xs}"
    and len: "length row' = length row"
    and rows: "\<forall>i < length row. row' ! i =
          (if i \<in> F then (row ! i)\<lparr>color := yellowSquare, letter := [xs ! i]\<rparr> else row ! i)"
    and fs: "\<forall>c. f' c = f c - int (card {i \<in> F. xs ! i = c})"
    and iff: "\<forall>i < length xs. i \<in> F \<longleftrightarrow>
          a ! i \<noteq> xs ! i \<and> xs ! i \<in> set a
          \<and> 0 < f (xs ! i) - int (card {j \<in> F. j < i \<and> xs ! j = xs ! i})"
    and yss: "\<forall>c. ys' c = (if \<exists>i \<in> F. xs ! i = c then Some True else ys c)"
    by auto
  define n where "n = length xs"
  have n: "n < length row" using snoc.prems by (simp add: n_def)
  have finF: "finite F" and nF: "n \<notin> F" and Fn: "\<And>i. i \<in> F \<Longrightarrow> i < n"
    using F by (auto simp: n_def intro: finite_subset[of _ "{i. i < length xs}"])
  define fires where "fires \<longleftrightarrow> a ! n \<noteq> x \<and> x \<in> set a \<and> 0 < f' x"
  define F2 where "F2 = (if fires then insert n F else F)"
  define f2 where "f2 = (if fires then f'(x := f' x - 1) else f')"
  define row2 where "row2 = (if fires
       then row'[n := (row' ! n)\<lparr>color := yellowSquare, letter := [x]\<rparr>] else row')"
  define ys2 where "ys2 = (if fires then ys'(x \<mapsto> True) else ys')"
  have step: "fold (yellow_step a) (enumerate 0 (xs @ [x])) (f, row, ys) = (f2, row2, ys2)"
    by (cases fires)
       (auto simp add: enumerate_append_eq st yellow_step_def f2_def row2_def ys2_def n_def fires_def)
  have nth_xs: "(xs @ [x]) ! i = xs ! i" if "i \<in> F" for i
    using Fn[OF that] by (simp add: nth_append n_def)
  have sub: "F2 \<subseteq> {i. i < length (xs @ [x])}"
    using F by (auto simp: F2_def n_def)
  have l: "length row2 = length row"
    using len by (simp add: row2_def)
  have r: "row2 ! i =
      (if i \<in> F2 then (row ! i)\<lparr>color := yellowSquare, letter := [(xs @ [x]) ! i]\<rparr> else row ! i)"
    if "i < length row" for i
  proof (cases "i = n")
    case True
    then show ?thesis
      using rows that len nF by (simp add: row2_def F2_def n_def)
  next
    case False
    then show ?thesis
      using rows that len nth_xs[of i] by (simp add: row2_def F2_def)
  qed
  have setF: "{i \<in> F2. (xs @ [x]) ! i = c} =
      (if fires \<and> x = c then insert n {i \<in> F. xs ! i = c} else {i \<in> F. xs ! i = c})" for c
    using nth_xs by (auto simp: F2_def n_def)
  have cardF: "int (card {i \<in> F2. (xs @ [x]) ! i = c}) =
      int (card {i \<in> F. xs ! i = c}) + (if fires \<and> x = c then 1 else 0)" for c
    using finF nF by (simp add: setF)
  have fq: "f2 c = f c - int (card {i \<in> F2. (xs @ [x]) ! i = c})" for c
    using fs by (simp add: cardF f2_def)
  have before: "{j \<in> F2. j < i \<and> (xs @ [x]) ! j = c} = {j \<in> F. j < i \<and> xs ! j = c}"
    if "i \<le> n" for i c
    using that nth_xs by (auto simp: F2_def)
  have all_before: "{j \<in> F. j < n \<and> xs ! j = c} = {i \<in> F. xs ! i = c}" for c
    using Fn by auto
  have i: "i \<in> F2 \<longleftrightarrow>
          a ! i \<noteq> (xs @ [x]) ! i \<and> (xs @ [x]) ! i \<in> set a
          \<and> 0 < f ((xs @ [x]) ! i) - int (card {j \<in> F2. j < i \<and> (xs @ [x]) ! j = (xs @ [x]) ! i})"
    if "i < length (xs @ [x])" for i
  proof (cases "i = n")
    case True
    have "i \<in> F2 \<longleftrightarrow> fires" using nF True by (simp add: F2_def)
    then show ?thesis
      using True fs by (simp add: before all_before[unfolded n_def] fires_def n_def)
  next
    case False
    then have lt: "i < length xs" using that by (simp add: n_def)
    have e1: "(xs @ [x]) ! i = xs ! i" using lt by (simp add: nth_append)
    have e2: "{j \<in> F2. j < i \<and> (xs @ [x]) ! j = xs ! i} = {j \<in> F. j < i \<and> xs ! j = xs ! i}"
      using before[of i "xs ! i"] lt by (simp add: n_def)
    have "i \<in> F2 \<longleftrightarrow> i \<in> F" using False by (simp add: F2_def)
    then show ?thesis
      unfolding e1 e2 using iff lt by simp
  qed
  have y: "ys2 c = (if \<exists>i \<in> F2. (xs @ [x]) ! i = c then Some True else ys c)" for c
  proof -
    have "(\<exists>i \<in> F2. (xs @ [x]) ! i = c) \<longleftrightarrow> (\<exists>i \<in> F. xs ! i = c) \<or> (fires \<and> x = c)"
      using nth_xs by (auto simp: F2_def n_def)
    then show ?thesis using yss by (simp add: ys2_def)
  qed
  show ?case
    unfolding step using sub l r fq i y by blast
qed

lemma yellow_fold_nonneg:
  "\<forall>c. 0 \<le> fst st c \<Longrightarrow> 0 \<le> fst (fold (yellow_step a) ps st) c"
proof (induction ps arbitrary: st)
  case Nil
  then show ?case by simp
next
  case (Cons p ps)
  have "\<forall>c. 0 \<le> fst (yellow_step a p st) c"
    using Cons.prems by (auto simp: yellow_step_def split: prod.splits)
  then show ?case using Cons.IH by simp
qed


lemma enumerate_bound: "(i, r) \<in> set (enumerate 0 xs) \<Longrightarrow> i < length xs"
  by (auto simp: in_set_enumerate_eq)

text \<open>\<^verbatim>\<open>addGuess\<close> in one equation, when no index is out of range.\<close>

lemma addGuess_eq:
  assumes "0 \<le> currentTurn g" "nat (currentTurn g) < length (board g)"
    and "length guess \<le> length (answer g)"
    and "length guess \<le> length (board g ! nat (currentTurn g))"
    and "length guess \<le> length (green (hints g))"
    and gs: "fold (green_step (answer g)) (enumerate 0 guess)
           (answer_freq (answer g), board g ! nat (currentTurn g), green (hints g)) = (f1, row1, gr1)"
    and ys: "fold (yellow_step (answer g)) (enumerate 0 guess) (f1, row1, yellow (hints g)) = (f2, row2, ys2)"
  shows "addGuess g guess =
     Some (g\<lparr>currentTurn := currentTurn g + 1, turnsRemaining := turnsRemaining g - 1,
             complete := (complete g \<or> guess = answer g \<or> turnsRemaining g - 1 = 0),
             won := (won g \<or> guess = answer g),
             hints := \<lparr>yellow = ys2, green = gr1\<rparr>,
             board := (board g)[nat (currentTurn g) := row2]\<rparr>)"
proof -
  define g1 where "g1 = g\<lparr>hints := (hints g)\<lparr>green := gr1\<rparr>, board := (board g)[nat (currentTurn g) := row1]\<rparr>"
  have len1: "length row1 = length (board g ! nat (currentTurn g))"
    using fold_green_lengths(1)[of "answer g" "enumerate 0 guess"
        "(answer_freq (answer g), board g ! nat (currentTurn g), green (hints g))"]
    by (simp add: gs)
  have p1: "addGuess_greens (enumerate 0 guess) (answer_freq (answer g)) g = Some (f1, g1)"
    using assms(1-5) by (subst addGuess_greens_fold) (auto simp: gs g1_def dest: enumerate_bound)
  have p2: "addGuess_yellows (enumerate 0 guess) f1 g1 =
      Some (f2, g1\<lparr>hints := (hints g1)\<lparr>yellow := ys2\<rparr>, board := (board g1)[nat (currentTurn g1) := row2]\<rparr>)"
    using assms(1-5) len1
    by (subst addGuess_yellows_fold) (auto simp: ys g1_def dest: enumerate_bound)
  show ?thesis
    unfolding addGuess_def p1 using assms(1,2) 
    by (simp add: p2 Let_def) (auto simp: g1_def)
qed


lemma squares_distinct [simp]:
  "greenSquare \<noteq> yellowSquare" "yellowSquare \<noteq> greenSquare"
  "greenSquare \<noteq> blackSquare" "blackSquare \<noteq> greenSquare"
  "yellowSquare \<noteq> blackSquare" "blackSquare \<noteq> yellowSquare"
  by (simp_all add: greenSquare_def yellowSquare_def blackSquare_def)

text \<open>
  What \<^verbatim>\<open>addGuess\<close> does to a ready game: \<open>F\<close> is the set of positions coloured yellow.
\<close>

lemma addGuess_ready:
  assumes "ready g" "length guess \<le> 5" "length guess \<le> length (answer g)"
  shows "\<exists>g' F row'. addGuess g guess = Some g'
     \<and> g' = g\<lparr>currentTurn := currentTurn g + 1, turnsRemaining := turnsRemaining g - 1,
             complete := (complete g \<or> guess = answer g \<or> turnsRemaining g - 1 = 0),
             won := (won g \<or> guess = answer g),
             hints := hints g', board := (board g)[nat (currentTurn g) := row']\<rparr>
     \<and> length row' = 5
     \<and> F \<subseteq> {i. i < length guess}
     \<and> (\<forall>i < 5. row' ! i =
           (if i < length guess
            then \<lparr>color = (if answer g ! i = guess ! i then greenSquare
                            else if i \<in> F then yellowSquare else blackSquare),
                  letter = [guess ! i]\<rparr>
            else \<lparr>color = blackSquare, letter = ''_''\<rparr>))
     \<and> (\<forall>i < length guess. i \<in> F \<longleftrightarrow>
           answer g ! i \<noteq> guess ! i \<and> guess ! i \<in> set (answer g)
           \<and> card {j. j < length guess \<and> guess ! j = guess ! i \<and> answer g ! j = guess ! i}
             + card {j \<in> F. j < i \<and> guess ! j = guess ! i} < count_list (answer g) (guess ! i))
     \<and> (\<forall>c. card {j. j < length guess \<and> guess ! j = c \<and> answer g ! j = c}
             + card {j \<in> F. guess ! j = c} \<le> count_list (answer g) c)
     \<and> length (green (hints g')) = 5
     \<and> (\<forall>i < 5. green (hints g') ! i =
           (if i < length guess \<and> answer g ! i = guess ! i then guess ! i else green (hints g) ! i))
     \<and> (\<forall>c. yellow (hints g') c = (if \<exists>i \<in> F. guess ! i = c then Some True else yellow (hints g) c))"
proof -
  define t where "t = nat (currentTurn g)"
  define a where "a = answer g"
  define row where "row = board g ! t"
  have t: "0 \<le> currentTurn g" "t < length (board g)"
    and row: "row = replicate 5 \<lparr>color = blackSquare, letter = ''_''\<rparr>"
    and gr: "length (green (hints g)) = 5"
    using assms(1) by (simp_all add: ready_def t_def row_def)
  have lrow: "length guess \<le> length row" using assms(2) by (simp add: row)
  obtain f1 row1 gr1 where
    gs: "fold (green_step a) (enumerate 0 guess) (answer_freq a, row, green (hints g)) = (f1, row1, gr1)"
    and len1: "length row1 = length row" "length gr1 = length (green (hints g))"
    and rows1: "\<forall>i < length row. row1 ! i =
          (if i < length guess
           then (if a ! i = guess ! i then (row ! i)\<lparr>color := greenSquare, letter := [guess ! i]\<rparr>
                 else (row ! i)\<lparr>letter := [guess ! i]\<rparr>)
           else row ! i)"
    and grs1: "\<forall>i < length (green (hints g)). gr1 ! i =
          (if i < length guess \<and> a ! i = guess ! i then guess ! i else green (hints g) ! i)"
    and fs1: "\<forall>c. f1 c = answer_freq a c - int (card {i. i < length guess \<and> guess ! i = c \<and> a ! i = c})"
    using green_fold_state[OF lrow, of a "answer_freq a" "green (hints g)"] by blast
  have lrow1: "length guess \<le> length row1" using lrow len1 by simp
  obtain f2 row2 ys2 F where
    ys: "fold (yellow_step a) (enumerate 0 guess) (f1, row1, yellow (hints g)) = (f2, row2, ys2)"
    and F: "F \<subseteq> {i. i < length guess}"
    and len2: "length row2 = length row1"
    and rows2: "\<forall>i < length row1. row2 ! i =
          (if i \<in> F then (row1 ! i)\<lparr>color := yellowSquare, letter := [guess ! i]\<rparr> else row1 ! i)"
    and fs2: "\<forall>c. f2 c = f1 c - int (card {i \<in> F. guess ! i = c})"
    and iff: "\<forall>i < length guess. i \<in> F \<longleftrightarrow>
          a ! i \<noteq> guess ! i \<and> guess ! i \<in> set a
          \<and> 0 < f1 (guess ! i) - int (card {j \<in> F. j < i \<and> guess ! j = guess ! i})"
    and yss: "\<forall>c. ys2 c = (if \<exists>i \<in> F. guess ! i = c then Some True else yellow (hints g) c)"
    using yellow_fold_state[OF lrow1, of a f1 "yellow (hints g)"] by blast
  define g' where "g' = g\<lparr>currentTurn := currentTurn g + 1, turnsRemaining := turnsRemaining g - 1,
             complete := (complete g \<or> guess = answer g \<or> turnsRemaining g - 1 = 0),
             won := (won g \<or> guess = answer g),
             hints := \<lparr>yellow = ys2, green = gr1\<rparr>,
             board := (board g)[nat (currentTurn g) := row2]\<rparr>"
  have gs': "fold (green_step (answer g)) (enumerate 0 guess)
           (answer_freq (answer g), board g ! nat (currentTurn g), green (hints g)) = (f1, row1, gr1)"
    using gs by (simp add: a_def row_def t_def)
  have ys': "fold (yellow_step (answer g)) (enumerate 0 guess) (f1, row1, yellow (hints g)) = (f2, row2, ys2)"
    using ys by (simp add: a_def)
  have eq: "addGuess g guess = Some g'"
    unfolding g'_def
  proof (rule addGuess_eq[OF _ _ _ _ _ gs' ys'])
    show "0 \<le> currentTurn g" "nat (currentTurn g) < length (board g)"
      using t by (simp_all add: t_def)
    show "length guess \<le> length (answer g)" by (rule assms(3))
    show "length guess \<le> length (board g ! nat (currentTurn g))"
      using lrow by (simp add: row_def t_def)
    show "length guess \<le> length (green (hints g))"
      using assms(2) gr by simp
  qed
  have shape: "g' = g\<lparr>currentTurn := currentTurn g + 1, turnsRemaining := turnsRemaining g - 1,
             complete := (complete g \<or> guess = answer g \<or> turnsRemaining g - 1 = 0),
             won := (won g \<or> guess = answer g),
             hints := hints g', board := (board g)[nat (currentTurn g) := row2]\<rparr>"
    by (simp add: g'_def)
  have l2: "length row2 = 5" using len2 len1 by (simp add: row)
  have Fmatch: "a ! i \<noteq> guess ! i" if "i \<in> F" for i
    using iff F that by auto
  have r2: "row2 ! i =
           (if i < length guess
            then \<lparr>color = (if a ! i = guess ! i then greenSquare
                            else if i \<in> F then yellowSquare else blackSquare),
                  letter = [guess ! i]\<rparr>
            else \<lparr>color = blackSquare, letter = ''_''\<rparr>)" if "i < 5" for i
  proof -
    have "i < length row" "i < length row1" using that len1 by (simp_all add: row)
    moreover have "row ! i = \<lparr>color = blackSquare, letter = ''_''\<rparr>" using that by (simp add: row)
    moreover have "i \<in> F \<Longrightarrow> i < length guess" using F by auto
    ultimately show ?thesis
      using rows1 rows2 Fmatch[of i] by auto
  qed
  have nonneg1: "0 \<le> f1 c" for c
  proof -
    have "{i. i < length guess \<and> guess ! i = c \<and> a ! i = c} \<subseteq> {i. i < length a \<and> a ! i = c}"
      using assms(3) by (auto simp: a_def)
    then have "card {i. i < length guess \<and> guess ! i = c \<and> a ! i = c} \<le> count_list a c"
      unfolding count_list_card by (intro card_mono) simp_all
    then show ?thesis using fs1 by (simp add: answer_freq_count)
  qed
  have nonneg2: "0 \<le> f2 c" for c
    using yellow_fold_nonneg[where st = "(f1, row1, yellow (hints g))" and c = c and a = a
        and ps = "enumerate 0 guess"] nonneg1
    by (simp add: ys)
  have budget: "card {j. j < length guess \<and> guess ! j = c \<and> a ! j = c}
             + card {j \<in> F. guess ! j = c} \<le> count_list a c" for c
    using nonneg2[of c] fs1 fs2 by (simp add: answer_freq_count)
  have present: "i \<in> F \<longleftrightarrow>
           a ! i \<noteq> guess ! i \<and> guess ! i \<in> set a
           \<and> card {j. j < length guess \<and> guess ! j = guess ! i \<and> a ! j = guess ! i}
             + card {j \<in> F. j < i \<and> guess ! j = guess ! i} < count_list a (guess ! i)"
    if "i < length guess" for i
  proof -
    have "0 < f1 (guess ! i) - int (card {j \<in> F. j < i \<and> guess ! j = guess ! i}) \<longleftrightarrow>
        card {j. j < length guess \<and> guess ! j = guess ! i \<and> a ! j = guess ! i}
             + card {j \<in> F. j < i \<and> guess ! j = guess ! i} < count_list a (guess ! i)"
      using fs1 by (simp add: answer_freq_count) linarith
    then show ?thesis using iff that by simp
  qed
  have h1: "length (green (hints g')) = 5" using len1 gr by (simp add: g'_def)
  have h2: "green (hints g') ! i =
           (if i < length guess \<and> a ! i = guess ! i then guess ! i else green (hints g) ! i)"
    if "i < 5" for i
    using grs1 gr that by (simp add: g'_def)
  have h3: "yellow (hints g') c = (if \<exists>i \<in> F. guess ! i = c then Some True else yellow (hints g) c)" for c
    using yss by (simp add: g'_def)
  show ?thesis
    using eq shape l2 F r2 present budget h1 h2 h3 unfolding a_def by blast
qed

lemma evaluation_ready:
  assumes "ready g" "length guess \<le> 5" "length guess \<le> length (answer g)"
  shows "\<exists>F. F \<subseteq> {i. i < length guess}
     \<and> evaluation g guess = Some (map (\<lambda>i.
           if i < length guess
           then (if answer g ! i = guess ! i then greenSquare
                 else if i \<in> F then yellowSquare else blackSquare)
           else blackSquare) [0..<5])
     \<and> (\<forall>i < length guess. i \<in> F \<longleftrightarrow>
           answer g ! i \<noteq> guess ! i \<and> guess ! i \<in> set (answer g)
           \<and> card {j. j < length guess \<and> guess ! j = guess ! i \<and> answer g ! j = guess ! i}
             + card {j \<in> F. j < i \<and> guess ! j = guess ! i} < count_list (answer g) (guess ! i))
     \<and> (\<forall>c. card {j. j < length guess \<and> guess ! j = c \<and> answer g ! j = c}
             + card {j \<in> F. guess ! j = c} \<le> count_list (answer g) c)"
proof -
  obtain g' F row' where
    eq: "addGuess g guess = Some g'"
    and shape: "g' = g\<lparr>currentTurn := currentTurn g + 1, turnsRemaining := turnsRemaining g - 1,
             complete := (complete g \<or> guess = answer g \<or> turnsRemaining g - 1 = 0),
             won := (won g \<or> guess = answer g),
             hints := hints g', board := (board g)[nat (currentTurn g) := row']\<rparr>"
    and len: "length row' = 5"
    and F: "F \<subseteq> {i. i < length guess}"
    and row: "\<forall>i < 5. row' ! i =
           (if i < length guess
            then \<lparr>color = (if answer g ! i = guess ! i then greenSquare
                            else if i \<in> F then yellowSquare else blackSquare),
                  letter = [guess ! i]\<rparr>
            else \<lparr>color = blackSquare, letter = ''_''\<rparr>)"
    and present: "\<forall>i < length guess. i \<in> F \<longleftrightarrow>
           answer g ! i \<noteq> guess ! i \<and> guess ! i \<in> set (answer g)
           \<and> card {j. j < length guess \<and> guess ! j = guess ! i \<and> answer g ! j = guess ! i}
             + card {j \<in> F. j < i \<and> guess ! j = guess ! i} < count_list (answer g) (guess ! i)"
    and budget: "\<forall>c. card {j. j < length guess \<and> guess ! j = c \<and> answer g ! j = c}
             + card {j \<in> F. guess ! j = c} \<le> count_list (answer g) c"
    using addGuess_ready[OF assms] by blast
  have t: "nat (currentTurn g) < length (board g)"
    using assms(1) by (simp add: ready_def)
  have "board g' ! nat (currentTurn g) = row'"
    using t by (subst shape) simp
  then have "evaluation g guess = Some (map color row')"
    by (simp add: evaluation_def eq)
  moreover have "map color row' = map (\<lambda>i.
           if i < length guess
           then (if answer g ! i = guess ! i then greenSquare
                 else if i \<in> F then yellowSquare else blackSquare)
           else blackSquare) [0..<5]"
    using len row by (intro nth_equalityI) auto
  ultimately show ?thesis using F present budget by auto
qed

lemma board_step_pair:
  "board_step a (i, c) row =
     row[i := (if c = a ! i then ansi_green [c]
               else if c \<in> set a then ansi_yellow [c]
               else ansi_black [c])]"
  by (simp add: board_step_def)

lemma length_board_step [simp]: "length (board_step a p row) = length row"
  by (simp add: board_step_def split: prod.splits)

lemma fold_board_step_length [simp]: "length (fold (board_step a) ps row) = length row"
  by (induction ps arbitrary: row) simp_all

lemma board_addGuess_loop_fold:
  assumes "0 \<le> turn" "nat turn < length b"
    and "\<forall>(i, c) \<in> set ps. i < length a \<and> i < length (b ! nat turn)"
  shows "board_addGuess_loop ps b turn a = Some (b[nat turn := fold (board_step a) ps (b ! nat turn)])"
  using assms
proof (induction ps arbitrary: b)
  case Nil
  then show ?case by simp
next
  case (Cons p ps)
  obtain i c where p: "p = (i, c)" by (cases p)
  define row1 where "row1 = board_step a p (b ! nat turn)"
  define b1 where "b1 = b[nat turn := row1]"
  have step: "board_addGuess_loop (p # ps) b turn a = board_addGuess_loop ps b1 turn a"
    using Cons.prems by (simp add: p set_cell_def b1_def row1_def board_step_pair)
  have ih: "board_addGuess_loop ps b1 turn a = Some (b[nat turn := fold (board_step a) ps row1])"
    using Cons.IH[of b1] Cons.prems by (simp add: b1_def row1_def)
  show ?case
    unfolding step ih by (simp add: row1_def)
qed

lemma board_fold_nth:
  assumes "length xs \<le> length row" "i < length row"
  shows "fold (board_step a) (enumerate 0 xs) row ! i =
     (if i < length xs
      then (if xs ! i = a ! i then ansi_green [xs ! i]
            else if xs ! i \<in> set a then ansi_yellow [xs ! i]
            else ansi_black [xs ! i])
      else row ! i)"
  using assms
proof (induction xs rule: rev_induct)
  case Nil
  then show ?case by simp
next
  case (snoc x xs)
  have ih: "fold (board_step a) (enumerate 0 xs) row ! i =
     (if i < length xs
      then (if xs ! i = a ! i then ansi_green [xs ! i]
            else if xs ! i \<in> set a then ansi_yellow [xs ! i]
            else ansi_black [xs ! i])
      else row ! i)"
    using snoc by simp
  consider "i < length xs" | "i = length xs" | "length xs < i" by linarith
  then show ?case
  proof cases
    case 1
    then show ?thesis using ih snoc.prems
      by (simp add: enumerate_append_eq board_step_pair nth_append)
  next
    case 2
    then show ?thesis using snoc.prems
      by (simp add: enumerate_append_eq board_step_pair nth_append)
  next
    case 3
    then show ?thesis using ih snoc.prems
      by (simp add: enumerate_append_eq board_step_pair nth_append)
  qed
qed

text \<open>\<^verbatim>\<open>board.addGuess\<close> of termle.go in one equation, when no index is out of range.\<close>

lemma board_addGuess_eq:
  assumes "0 \<le> turn" "nat turn < length b" "length guess \<le> length a"
    and "length guess \<le> length (b ! nat turn)"
  shows "\<exists>row. board_addGuess b turn guess a = Some (b[nat turn := row])
     \<and> length row = length (b ! nat turn)
     \<and> (\<forall>i < length (b ! nat turn). row ! i =
          (if i < length guess
           then (if guess ! i = a ! i then ansi_green [guess ! i]
                 else if guess ! i \<in> set a then ansi_yellow [guess ! i]
                 else ansi_black [guess ! i])
           else b ! nat turn ! i))"
proof -
  have "board_addGuess b turn guess a =
      Some (b[nat turn := fold (board_step a) (enumerate 0 guess) (b ! nat turn)])"
    unfolding board_addGuess_def using assms
    by (intro board_addGuess_loop_fold) (auto dest: enumerate_bound)
  then show ?thesis
    using board_fold_nth[OF assms(4), of _ a] by auto
qed

text \<open>
  The two-pass rule of \<^verbatim>\<open>game.addGuess\<close>: a position is green exactly when it matches; it
  is yellow exactly when it does not match, its letter is in the answer, and the matches
  of that letter anywhere plus its yellow positions before are fewer than its occurrences
  in the answer; so green and yellow positions of a letter never exceed its frequency.
\<close>

lemma addGuess_two_pass:
  assumes "ready g" "length guess \<le> 5" "length guess \<le> length (answer g)"
  shows "\<exists>ev. evaluation g guess = Some ev \<and> length ev = 5
     \<and> (\<forall>i < length guess. ev ! i = greenSquare \<longleftrightarrow> guess ! i = answer g ! i)
     \<and> (\<forall>i < length guess. ev ! i = yellowSquare \<longleftrightarrow>
           guess ! i \<noteq> answer g ! i \<and> guess ! i \<in> set (answer g)
           \<and> card {j. j < length guess \<and> guess ! j = guess ! i \<and> answer g ! j = guess ! i}
             + card {j. j < i \<and> guess ! j = guess ! i \<and> ev ! j = yellowSquare}
             < count_list (answer g) (guess ! i))
     \<and> (\<forall>c. card {i. i < length guess \<and> guess ! i = c
                   \<and> (ev ! i = greenSquare \<or> ev ! i = yellowSquare)}
           \<le> count_list (answer g) c)"
proof -
  obtain F where F: "F \<subseteq> {i. i < length guess}"
    and ev: "evaluation g guess = Some (map (\<lambda>i.
           if i < length guess
           then (if answer g ! i = guess ! i then greenSquare
                 else if i \<in> F then yellowSquare else blackSquare)
           else blackSquare) [0..<5])"
    and present: "\<forall>i < length guess. i \<in> F \<longleftrightarrow>
           answer g ! i \<noteq> guess ! i \<and> guess ! i \<in> set (answer g)
           \<and> card {j. j < length guess \<and> guess ! j = guess ! i \<and> answer g ! j = guess ! i}
             + card {j \<in> F. j < i \<and> guess ! j = guess ! i} < count_list (answer g) (guess ! i)"
    and budget: "\<forall>c. card {j. j < length guess \<and> guess ! j = c \<and> answer g ! j = c}
             + card {j \<in> F. guess ! j = c} \<le> count_list (answer g) c"
    using evaluation_ready[OF assms] by blast
  define ev where "ev = map (\<lambda>i.
           if i < length guess
           then (if answer g ! i = guess ! i then greenSquare
                 else if i \<in> F then yellowSquare else blackSquare)
           else blackSquare) [0..<5]"
  have nth: "ev ! i = (if answer g ! i = guess ! i then greenSquare
                 else if i \<in> F then yellowSquare else blackSquare)" if "i < length guess" for i
    using that assms(2) by (simp add: ev_def)
  have Fno: "answer g ! i \<noteq> guess ! i" if "i \<in> F" for i
    using present F that by auto
  have gr: "ev ! i = greenSquare \<longleftrightarrow> guess ! i = answer g ! i" if "i < length guess" for i
    using nth[OF that] by auto
  have ye: "ev ! i = yellowSquare \<longleftrightarrow> i \<in> F" if "i < length guess" for i
    using nth[OF that] Fno[of i] by auto
  have before: "{j. j < i \<and> guess ! j = c \<and> ev ! j = yellowSquare} = {j \<in> F. j < i \<and> guess ! j = c}"
    if "i < length guess" for i c
    using ye that F by (auto simp: subset_iff)
  have p: "ev ! i = yellowSquare \<longleftrightarrow>
           guess ! i \<noteq> answer g ! i \<and> guess ! i \<in> set (answer g)
           \<and> card {j. j < length guess \<and> guess ! j = guess ! i \<and> answer g ! j = guess ! i}
             + card {j. j < i \<and> guess ! j = guess ! i \<and> ev ! j = yellowSquare}
             < count_list (answer g) (guess ! i)" if "i < length guess" for i
    unfolding before[OF that] ye[OF that] using present that by auto
  have b: "card {i. i < length guess \<and> guess ! i = c
                   \<and> (ev ! i = greenSquare \<or> ev ! i = yellowSquare)}
           \<le> count_list (answer g) c" for c
  proof -
    have split: "{i. i < length guess \<and> guess ! i = c \<and> (ev ! i = greenSquare \<or> ev ! i = yellowSquare)}
        = {j. j < length guess \<and> guess ! j = c \<and> answer g ! j = c} \<union> {j \<in> F. guess ! j = c}"
      using gr ye F by (auto simp: subset_iff)
    have "card ({j. j < length guess \<and> guess ! j = c \<and> answer g ! j = c} \<union> {j \<in> F. guess ! j = c})
        \<le> card {j. j < length guess \<and> guess ! j = c \<and> answer g ! j = c} + card {j \<in> F. guess ! j = c}"
      by (rule card_Un_le)
    then show ?thesis unfolding split using budget by (meson le_trans)
  qed
  have "length ev = 5" by (simp add: ev_def)
  then show ?thesis
    using ev gr p b unfolding ev_def[symmetric] by blast
qed

lemma ready_game_literal: "ready (game_literal d hardmode a dict)"
  by (simp add: ready_def game_literal_def newBoard_def)

section \<open>Hard-mode validation\<close>

lemma checkHints_yellows_None: "checkHints_yellows keys guess = None \<longleftrightarrow> set keys \<subseteq> set guess"
  by (induction keys) auto

lemma checkHints_yellows_Some:
  "checkHints_yellows keys guess = Some err \<Longrightarrow>
     \<exists>l. err = MustContain l \<and> l \<in> set keys \<and> l \<notin> set guess"
  by (induction keys) (auto split: if_splits)

lemma checkHints_greens_ok:
  assumes "k + length gr \<le> length guess"
    and "\<forall>i < length gr. gr ! i = emptyRune \<or> gr ! i = guess ! (k + i)"
  shows "checkHints_greens (enumerate k gr) guess = Some None"
  using assms
proof (induction gr arbitrary: k)
  case Nil
  then show ?case by simp
next
  case (Cons x gr)
  have head: "x = emptyRune \<or> x = guess ! k"
    using Cons.prems(2) by force
  have tail: "\<forall>i < length gr. gr ! i = emptyRune \<or> gr ! i = guess ! (Suc k + i)"
    using Cons.prems(2) by force
  have "checkHints_greens (enumerate (Suc k) gr) guess = Some None"
    using Cons.IH[of "Suc k"] Cons.prems(1) tail by simp
  then show ?case using head Cons.prems(1) by auto
qed

lemma checkHints_greens_first:
  assumes "k + length gr \<le> length guess" "i < length gr"
    and "gr ! i \<noteq> emptyRune" "gr ! i \<noteq> guess ! (k + i)"
    and "\<forall>j < i. gr ! j = emptyRune \<or> gr ! j = guess ! (k + j)"
  shows "checkHints_greens (enumerate k gr) guess = Some (Some (PositionMustContain (k + i) (gr ! i)))"
  using assms
proof (induction gr arbitrary: k i)
  case Nil
  then show ?case by simp
next
  case (Cons x gr)
  show ?case
  proof (cases i)
    case 0
    then show ?thesis using Cons.prems by simp
  next
    case (Suc i')
    have head: "x = emptyRune \<or> x = guess ! k"
      using Cons.prems(5) Suc by force
    have tail: "\<forall>j < i'. gr ! j = emptyRune \<or> gr ! j = guess ! (Suc k + j)"
      using Cons.prems(5) Suc by force
    have "checkHints_greens (enumerate (Suc k) gr) guess =
        Some (Some (PositionMustContain (Suc k + i') (gr ! i')))"
      using Cons.IH[of "Suc k" i'] Cons.prems Suc tail by simp
    then show ?thesis using head Cons.prems(1) Suc by auto
  qed
qed

lemma checkHints_greens_total:
  assumes "k + length gr \<le> length guess"
  shows "checkHints_greens (enumerate k gr) guess \<noteq> None"
  using assms by (induction gr arbitrary: k) auto

lemma first_mismatch:
  assumes "\<exists>i < (n::nat). P i"
  shows "\<exists>i < n. P i \<and> (\<forall>j < i. \<not> P j)"
proof -
  from assms obtain i where i: "i < n" "P i" by blast
  define m where "m = (LEAST i. P i)"
  have "P m" unfolding m_def using i(2) by (rule LeastI)
  moreover have "m \<le> i" unfolding m_def using i(2) by (rule Least_le)
  moreover have "\<not> P j" if "j < m" for j
    using that not_less_Least unfolding m_def by blast
  ultimately show ?thesis using i(1) by (intro exI[of _ m]) auto
qed

section \<open>The session\<close>

text \<open>A guess longer than the answer makes \<^verbatim>\<open>addGuess\<close> panic.\<close>

lemma addGuess_greens_short:
  assumes "\<exists>(i, r) \<in> set ps. length (answer g) \<le> i"
  shows "addGuess_greens ps freq g = None"
  using assms
proof (induction ps arbitrary: freq g)
  case Nil
  then show ?case by simp
next
  case (Cons p ps)
  obtain i r where p: "p = (i, r)" by (cases p)
  show ?case
  proof (cases "length (answer g) \<le> i")
    case True
    then show ?thesis by (simp add: p)
  next
    case False
    then have rest: "\<exists>(i, r) \<in> set ps. length (answer g) \<le> i"
      using Cons.prems by (auto simp: p)
    have ih: "addGuess_greens ps f g' = None" if "answer g' = answer g" for f g'
      using Cons.IH[of g' f] rest that by simp
    show ?thesis
      using False by (simp add: p ih split: option.splits)
  qed
qed

lemma addGuess_short:
  assumes "length (answer g) < length guess"
  shows "addGuess g guess = None"
proof -
  have "(length (answer g), guess ! length (answer g)) \<in> set (enumerate 0 guess)"
    using assms by (simp add: in_set_enumerate_eq)
  then have "addGuess_greens (enumerate 0 guess) (answer_freq (answer g)) g = None"
    by (intro addGuess_greens_short) auto
  then show ?thesis by (simp add: addGuess_def)
qed

lemma game_inv_ready: "game_inv g \<Longrightarrow> \<not> complete g \<Longrightarrow> ready g"
  by (auto simp: game_inv_def ready_def)

lemma game_inv_literal: "game_inv (game_literal d hardmode a dict)"
  by (auto simp: game_inv_def game_literal_def newBoard_def)

lemma valid_length: "valid s \<Longrightarrow> length s = 5"
  by (simp add: valid_def)

text \<open>An accepted guess: what \<^verbatim>\<open>addGuess\<close> does to a game that satisfies the invariant.\<close>

lemma addGuess_inv:
  assumes "game_inv g" "\<not> complete g" "length guess = 5" "addGuess g guess = Some g'"
  shows "game_inv g' \<and> day g' = day g \<and> answer g' = answer g \<and> validGuesses g' = validGuesses g
     \<and> hardMode g' = hardMode g \<and> currentTurn g' = currentTurn g + 1
     \<and> turnsRemaining g' = turnsRemaining g - 1
     \<and> (won g' \<longleftrightarrow> guess = answer g)
     \<and> (complete g' \<longleftrightarrow> guess = answer g \<or> turnsRemaining g = 1)"
proof -
  have r: "ready g" using assms(1,2) by (rule game_inv_ready)
  have la: "length guess \<le> length (answer g)"
    using addGuess_short[of g guess] assms(4) by (cases "length (answer g) < length guess") auto
  obtain g2 row' where eq: "addGuess g guess = Some g2"
    and shape: "g2 = g\<lparr>currentTurn := currentTurn g + 1, turnsRemaining := turnsRemaining g - 1,
             complete := (complete g \<or> guess = answer g \<or> turnsRemaining g - 1 = 0),
             won := (won g \<or> guess = answer g),
             hints := hints g2, board := (board g)[nat (currentTurn g) := row']\<rparr>"
    and len: "length row' = 5"
    and gl: "length (green (hints g2)) = 5"
    using addGuess_ready[OF r _ la] assms(3) by auto
  have g2: "g2 = g'" using eq assms(4) by simp
  have nw: "\<not> won g" "turnsRemaining g \<noteq> 0" "0 \<le> currentTurn g" "currentTurn g < 6"
    using assms(1,2) by (auto simp: game_inv_def)
  have fields: "day g2 = day g" "answer g2 = answer g" "validGuesses g2 = validGuesses g"
    "hardMode g2 = hardMode g" "currentTurn g2 = currentTurn g + 1"
    "turnsRemaining g2 = turnsRemaining g - 1"
    "won g2 \<longleftrightarrow> won g \<or> guess = answer g"
    "complete g2 \<longleftrightarrow> complete g \<or> guess = answer g \<or> turnsRemaining g - 1 = 0"
    "board g2 = (board g)[nat (currentTurn g) := row']"
    by (subst shape, simp)+
  have rows: "board g2 ! j = replicate 5 \<lparr>color = blackSquare, letter = ''_''\<rparr>"
    if "nat (currentTurn g2) \<le> j" "j < 6" for j
  proof -
    have "j \<noteq> nat (currentTurn g)" "nat (currentTurn g) \<le> j"
      using that nw by (simp_all add: fields)
    then show ?thesis using assms(1) that by (simp add: fields game_inv_def)
  qed
  have "game_inv g2"
    unfolding game_inv_def using assms(1,2) nw rows gl
    by (auto simp: fields game_inv_def)
  then show ?thesis
    using fields nw assms(2) unfolding g2 by auto
qed

lemma addGuess_total:
  assumes "game_inv g" "\<not> complete g" "length guess = 5" "5 \<le> length (answer g)"
  shows "\<exists>g'. addGuess g guess = Some g'"
  using addGuess_ready[OF game_inv_ready[OF assms(1,2)], of guess] assms(3,4) by auto

text \<open>One round of the loop of \<^verbatim>\<open>main\<close>.\<close>

lemma main_step_rejected: "main_step range_keys g text = Some (Some rejected, g') \<Longrightarrow> g' = g"
  by (auto simp: main_step_def Let_def split: if_splits option.splits)

lemma main_step_accepted:
  "main_step range_keys g text = Some (None, g') \<Longrightarrow>
     valid (ToUpper (TrimSpace text)) \<and> ToUpper (TrimSpace text) \<in> validGuesses g
     \<and> addGuess g (ToUpper (TrimSpace text)) = Some g'"
  by (auto simp: main_step_def Let_def split: if_splits option.splits)

lemma main_step_inv:
  assumes "game_inv g" "\<not> complete g" "main_step range_keys g text = Some (r, g')"
  shows "game_inv g' \<and> day g' = day g \<and> answer g' = answer g \<and> validGuesses g' = validGuesses g
     \<and> hardMode g' = hardMode g"
proof (cases r)
  case None
  then show ?thesis
    using main_step_accepted[of range_keys g "text" g'] assms
      addGuess_inv[of g "ToUpper (TrimSpace text)" g'] valid_length by auto
next
  case (Some rejected)
  then show ?thesis using main_step_rejected[of range_keys g "text" rejected g'] assms by simp
qed

lemma main_step_total:
  assumes "game_inv g" "\<not> complete g" "5 \<le> length (answer g)"
  shows "\<exists>r g'. main_step range_keys g text = Some (r, g')"
proof -
  define guess where "guess = ToUpper (TrimSpace text)"
  show ?thesis
  proof (cases "valid guess \<and> guess \<in> validGuesses g")
    case False
    then show ?thesis by (auto simp: main_step_def guess_def Let_def)
  next
    case True
    then have l: "length guess = 5" by (simp add: valid_length)
    obtain g' where a: "addGuess g guess = Some g'"
      using addGuess_total[OF assms(1,2) l assms(3)] by blast
    have "checkHints_greens (enumerate 0 (green (hints g))) guess \<noteq> None"
      using assms(1) l by (intro checkHints_greens_total) (simp add: game_inv_def)
    then have "checkHints keys g guess \<noteq> None" for keys
      by (auto simp: checkHints_def split: option.splits)
    then obtain e where "checkHints (range_keys (yellow (hints g))) g guess = Some e"
      by (metis not_Some_eq)
    then show ?thesis
      using True a by (cases e) (auto simp: main_step_def guess_def[symmetric] Let_def)
  qed
qed

lemma accepted_guesses_complete: "complete g \<Longrightarrow> accepted_guesses range_keys g stdin = []"
  by (cases stdin) simp_all

lemma main_loop_complete: "complete g \<Longrightarrow> main_loop range_keys g stdin = Some g"
  by (cases stdin) simp_all

text \<open>The loop of \<^verbatim>\<open>main\<close>, from a game that satisfies the invariant.\<close>

lemma main_loop_inv:
  assumes "game_inv g" "main_loop range_keys g stdin = Some g'"
  shows "game_inv g' \<and> answer g' = answer g
     \<and> currentTurn g' = currentTurn g + int (length (accepted_guesses range_keys g stdin))
     \<and> (won g' \<longleftrightarrow> won g \<or> (accepted_guesses range_keys g stdin \<noteq> []
                              \<and> last (accepted_guesses range_keys g stdin) = answer g))
     \<and> answer g \<notin> set (butlast (accepted_guesses range_keys g stdin))"
  using assms
proof (induction stdin arbitrary: g)
  case Nil
  then show ?case by simp
next
  case (Cons line stdin)
  show ?case
  proof (cases "complete g")
    case True
    then show ?thesis using Cons.prems by simp
  next
    case False
    then obtain r g1 where step: "main_step range_keys g line = Some (r, g1)"
      and rest: "main_loop range_keys g1 stdin = Some g'"
      using Cons.prems(2) by (auto split: option.splits)
    have inv1: "game_inv g1" and a1: "answer g1 = answer g"
      using main_step_inv[OF Cons.prems(1) False step] by simp_all
    note ih = Cons.IH[OF inv1 rest, unfolded a1]
    show ?thesis
    proof (cases r)
      case (Some rejected)
      then have "g1 = g" using step main_step_rejected by blast
      then show ?thesis using ih step Some False by simp
    next
      case None
      define guess where "guess = ToUpper (TrimSpace line)"
      define acc where "acc = accepted_guesses range_keys g1 stdin"
      have add: "addGuess g guess = Some g1" and v: "valid guess"
        using main_step_accepted[of range_keys g line g1] step None by (simp_all add: guess_def)
      have upd: "currentTurn g1 = currentTurn g + 1" "won g1 \<longleftrightarrow> guess = answer g"
        "complete g1 \<longleftrightarrow> guess = answer g \<or> turnsRemaining g = 1"
        using addGuess_inv[OF Cons.prems(1) False valid_length[OF v] add] by simp_all
      have accs: "accepted_guesses range_keys g (line # stdin) = guess # acc"
        using False step None by (simp add: guess_def acc_def)
      have nw: "\<not> won g" using Cons.prems(1) False by (auto simp: game_inv_def)
      have won_acc: "acc = []" if "guess = answer g"
        using that upd(3) accepted_guesses_complete[of g1] by (simp add: acc_def)
      have "won g' \<longleftrightarrow> guess # acc \<noteq> [] \<and> last (guess # acc) = answer g"
        using ih upd(2) won_acc by (auto simp: acc_def[symmetric])
      moreover have "answer g \<notin> set (butlast (guess # acc))"
        using ih won_acc by (auto simp: acc_def[symmetric])
      moreover have "currentTurn g' = currentTurn g + int (length (guess # acc))"
        using ih upd(1) by (simp add: acc_def[symmetric])
      ultimately show ?thesis
        using ih nw unfolding accs by simp
    qed
  qed
qed

lemma main_loop_total:
  assumes "game_inv g" "5 \<le> length (answer g)"
  shows "\<exists>g'. main_loop range_keys g stdin = Some g'"
  using assms
proof (induction stdin arbitrary: g)
  case Nil
  then show ?case by simp
next
  case (Cons line stdin)
  show ?case
  proof (cases "complete g")
    case True
    then show ?thesis by simp
  next
    case False
    obtain r g1 where step: "main_step range_keys g line = Some (r, g1)"
      using main_step_total[OF Cons.prems(1) False Cons.prems(2)] by blast
    have "game_inv g1" "answer g1 = answer g"
      using main_step_inv[OF Cons.prems(1) False step] by simp_all
    then show ?thesis
      using Cons.IH[of g1] Cons.prems(2) False step by simp
  qed
qed

section \<open>The answer of the day\<close>

lemma int64_id: "- (2 ^ 63) \<le> x \<Longrightarrow> x < 2 ^ 63 \<Longrightarrow> int64 x = x"
  by (simp add: int64_def)

lemma int64_range: "- (2 ^ 63) \<le> int64 x \<and> int64 x \<le> 2 ^ 63 - 1"
proof -
  have "0 \<le> (x + 2 ^ 63) mod 2 ^ 64" "(x + 2 ^ 63) mod 2 ^ 64 < (2 ^ 64 :: int)"
    by simp_all
  then show ?thesis by (simp add: int64_def)
qed

text \<open>The loop of \<^verbatim>\<open>answerForDay\<close> ends below the largest \<^verbatim>\<open>int\<close>, after \<open>d + 1 - i\<close> scans.\<close>

lemma answerForDay_loop_scans:
  assumes "0 \<le> i" "i \<le> d + 1" "d < 2 ^ 63 - 1"
  shows "answerForDay_loop i d s = Some (((\<lambda>s. snd (Scan s)) ^^ nat (d + 1 - i)) s)"
proof -
  define f where "f = (\<lambda>s. snd (Scan s))"
  have "answerForDay_loop i d s = Some ((f ^^ nat (d + 1 - i)) s)"
    using assms
  proof (induction "nat (d + 1 - i)" arbitrary: i s)
    case 0
    then have "\<not> i \<le> d" by simp
    then show ?case using 0 by (subst answerForDay_loop.simps) simp
  next
    case (Suc n)
    then have le: "i \<le> d" by simp
    have next_i: "int64 (i + 1) = i + 1"
      using Suc.prems le by (intro int64_id) simp_all
    have n: "n = nat (d + 1 - (i + 1))" using Suc.hyps(2) by simp
    have "answerForDay_loop i d s = answerForDay_loop (i + 1) d (f s)"
      using le by (subst answerForDay_loop.simps) (simp add: next_i f_def)
    also have "\<dots> = Some ((f ^^ nat (d + 1 - (i + 1))) (f s))"
      using Suc.prems le by (intro Suc.hyps(1)[OF n]) simp_all
    also have "(f ^^ nat (d + 1 - (i + 1))) (f s) = (f ^^ nat (d + 1 - i)) s"
      unfolding n[symmetric] Suc.hyps(2)[symmetric] by (simp add: funpow_swap1)
    finally show ?case .
  qed
  then show ?thesis by (simp add: f_def)
qed

lemma answerForDay_loop_negative: "d < 0 \<Longrightarrow> answerForDay_loop 0 d s = Some s"
  by (subst answerForDay_loop.simps) simp

text \<open>At the largest \<^verbatim>\<open>int\<close> the condition \<^verbatim>\<open>i <= day\<close> never fails.\<close>

lemma answerForDay_loop_max:
  assumes "answerForDay_loop i d s = Some y"
  shows "\<not> (d = 2 ^ 63 - 1 \<and> i \<le> 2 ^ 63 - 1)"
proof (rule answerForDay_loop.raw_induct[where P = "\<lambda>i d s y. \<not> (d = 2 ^ 63 - 1 \<and> i \<le> 2 ^ 63 - 1)",
      OF _ assms])
  fix f :: "int \<Rightarrow> int \<Rightarrow> scanner \<Rightarrow> scanner option" and i d :: int and s y :: scanner
  assume ih: "\<And>i d s y. f i d s = Some y \<Longrightarrow> \<not> (d = 2 ^ 63 - 1 \<and> i \<le> 2 ^ 63 - 1)"
    and eq: "(if i \<le> d then f (int64 (i + 1)) d (snd (Scan s)) else Some s) = Some y"
  show "\<not> (d = 2 ^ 63 - 1 \<and> i \<le> 2 ^ 63 - 1)"
  proof (cases "i \<le> d")
    case True
    then have "f (int64 (i + 1)) d (snd (Scan s)) = Some y" using eq by simp
    then have "\<not> (d = 2 ^ 63 - 1 \<and> int64 (i + 1) \<le> 2 ^ 63 - 1)" by (rule ih)
    then show ?thesis using int64_range[of "i + 1"] by simp
  next
    case False
    then show ?thesis by auto
  qed
qed

lemma Scan_record:
  "snd (Scan \<lparr>pending = ts, token = t\<rparr>) =
     (case ts of [] \<Rightarrow> \<lparr>pending = [], token = []\<rparr> | x # xs \<Rightarrow> \<lparr>pending = xs, token = x\<rparr>)"
  by (simp add: Scan_def split: list.splits)

lemma scans:
  "((\<lambda>s. snd (Scan s)) ^^ n) \<lparr>pending = ts, token = t\<rparr> =
     (if n = 0 then \<lparr>pending = ts, token = t\<rparr>
      else if n \<le> length ts then \<lparr>pending = drop n ts, token = ts ! (n - 1)\<rparr>
      else \<lparr>pending = [], token = []\<rparr>)"
proof (induction n)
  case 0
  then show ?case by simp
next
  case (Suc n)
  have unfold: "((\<lambda>s. snd (Scan s)) ^^ Suc n) \<lparr>pending = ts, token = t\<rparr> =
      snd (Scan (((\<lambda>s. snd (Scan s)) ^^ n) \<lparr>pending = ts, token = t\<rparr>))"
    by simp
  consider "n = 0" | "0 < n" "n < length ts" | "0 < n" "n = length ts" | "0 < n" "length ts < n"
    by linarith
  then show ?case
  proof cases
    case 1
    then show ?thesis
      unfolding unfold by (cases ts) (simp_all add: Scan_record)
  next
    case 2
    then have "drop n ts = ts ! n # drop (Suc n) ts"
      by (simp add: Cons_nth_drop_Suc)
    then show ?thesis unfolding unfold Suc using 2 by (simp add: Scan_record)
  next
    case 3
    then show ?thesis unfolding unfold Suc by (simp add: Scan_record)
  next
    case 4
    then show ?thesis unfolding unfold Suc by (simp add: Scan_record)
  qed
qed

text \<open>\<^verbatim>\<open>answerForDay\<close> by scanning, below the largest \<^verbatim>\<open>int\<close>.\<close>

lemma answerForDay_lines:
  assumes "d < 2 ^ 63 - 1"
  shows "answerForDay answers_txt d =
     Some (if 0 \<le> d \<and> nat d < length (split_lines [] answers_txt)
           then ToUpper (split_lines [] answers_txt ! nat d) else [])"
proof (cases "d < 0")
  case True
  then show ?thesis
    by (simp add: answerForDay_def answerForDay_loop_negative NewScanner_def Text_def ToUpper_def)
next
  case False
  define n where "n = nat (d + 1)"
  have n: "n \<noteq> 0" "n - 1 = nat d" "n \<le> length (split_lines [] answers_txt)
      \<longleftrightarrow> nat d < length (split_lines [] answers_txt)"
    using False by (auto simp: n_def)
  have "answerForDay_loop 0 d (NewScanner answers_txt) =
      Some (((\<lambda>s. snd (Scan s)) ^^ n) (NewScanner answers_txt))"
    using answerForDay_loop_scans[of 0 d "NewScanner answers_txt"] assms False by (simp add: n_def)
  then show ?thesis
    using False n
    by (simp add: answerForDay_def NewScanner_def scans Text_def ToUpper_def del: funpow.simps)
qed

lemma split_lines_append:
  "CHR 0x0A \<notin> set w \<Longrightarrow> split_lines cur (w @ rest) = split_lines (cur @ w) rest"
  by (induction w arbitrary: cur) auto

lemma dropCR_snoc: "dropCR (w @ [CHR 0x0D]) = w"
  by (simp add: dropCR_def)

lemma split_lines_records:
  assumes "\<forall>w \<in> set ws. CHR 0x0A \<notin> set w"
  shows "split_lines [] (fixed_width_records ws) = ws"
  using assms
proof (induction ws)
  case Nil
  then show ?case by (simp add: fixed_width_records_def)
next
  case (Cons w ws)
  have "split_lines [] (fixed_width_records (w # ws)) =
      split_lines [] (w @ CHR 0x0D # CHR 0x0A # fixed_width_records ws)"
    by (simp add: fixed_width_records_def)
  also have "\<dots> = split_lines w (CHR 0x0D # CHR 0x0A # fixed_width_records ws)"
    using Cons.prems by (simp add: split_lines_append)
  also have "\<dots> = w # split_lines [] (fixed_width_records ws)"
    by (simp add: dropCR_snoc)
  finally show ?case using Cons by simp
qed

lemma length_records:
  "\<forall>w \<in> set ws. length w = 5 \<Longrightarrow> length (fixed_width_records ws) = 7 * length ws"
  by (induction ws) (simp_all add: fixed_width_records_def)

lemma drop_records:
  assumes "\<forall>w \<in> set ws. length w = 5"
  shows "drop (7 * k) (fixed_width_records ws) = fixed_width_records (drop k ws)"
  using assms
proof (induction ws arbitrary: k)
  case Nil
  then show ?case by (simp add: fixed_width_records_def)
next
  case (Cons w ws)
  show ?case
  proof (cases k)
    case 0
    then show ?thesis by simp
  next
    case (Suc k')
    have "drop (7 * k) (fixed_width_records (w # ws)) = drop (7 * k') (fixed_width_records ws)"
      using Cons.prems by (simp add: fixed_width_records_def Suc)
    then show ?thesis using Cons Suc by simp
  qed
qed

lemma take_records:
  assumes "\<forall>w \<in> set ws. length w = 5" "k < length ws"
  shows "take 5 (drop (7 * k) (fixed_width_records ws)) = ws ! k"
proof -
  have "drop k ws = ws ! k # drop (Suc k) ws"
    using assms(2) by (simp add: Cons_nth_drop_Suc)
  then have "drop (7 * k) (fixed_width_records ws) =
      ws ! k @ CHR 0x0D # CHR 0x0A # fixed_width_records (drop (Suc k) ws)"
    using drop_records[OF assms(1), of k] by (simp add: fixed_width_records_def)
  moreover have "length (ws ! k) = 5" using assms by simp
  ultimately show ?thesis by simp
qed

lemma main_loop_empty_answer:
  assumes "answer g = []" "main_loop range_keys g stdin = Some g'"
  shows "g' = g"
  using assms
proof (induction stdin)
  case Nil
  then show ?case by simp
next
  case (Cons line stdin)
  show ?case
  proof (cases "complete g")
    case True
    then show ?thesis using Cons.prems by simp
  next
    case False
    then obtain r g1 where step: "main_step range_keys g line = Some (r, g1)"
      and rest: "main_loop range_keys g1 stdin = Some g'"
      using Cons.prems(2) by (auto split: option.splits)
    have "g1 = g"
    proof (cases r)
      case None
      then have "valid (ToUpper (TrimSpace line))"
        and "addGuess g (ToUpper (TrimSpace line)) = Some g1"
        using main_step_accepted[of range_keys g line g1] step by simp_all
      then show ?thesis
        using addGuess_short[of g "ToUpper (TrimSpace line)"] Cons.prems(1) valid_length by fastforce
    next
      case (Some rejected)
      then show ?thesis using step main_step_rejected by blast
    qed
    then show ?thesis using Cons.IH Cons.prems(1) rest by simp
  qed
qed

lemma newGame_literal:
  "newGame answers_txt guesses_txt d hardmode = Some g0 \<Longrightarrow>
     \<exists>a. g0 = game_literal d hardmode a (guessesSet guesses_txt)"
  by (auto simp: newGame_def split: option.splits)

section \<open>The day of the session\<close>

lemma days_from_civil_firstDay: "days_from_civil 2021 6 19 = 18797"
  unfolding days_from_civil_def Let_def by simp

lemma days_from_civil_next: "days_from_civil 2021 6 20 = 18798"
  unfolding days_from_civil_def Let_def by simp

lemma civil_from_days_firstDay: "civil_from_days 18797 = (2021, 6, 19)"
  unfolding civil_from_days_def Let_def by simp

lemma civil_from_days_next: "civil_from_days 18798 = (2021, 6, 20)"
  unfolding civil_from_days_def Let_def by simp

lemma div_86400:
  fixes x :: int
  assumes "q * 86400 \<le> x" "x < q * 86400 + 86400"
  shows "x div 86400 = q"
  by (rule int_div_pos_eq[of x 86400 q "x - q * 86400"]) (use assms in simp_all)

lemma firstDay_fields: "unix firstDay = 1624060800" "nsec firstDay = 0"
  by (simp_all add: firstDay_def time_Date_def days_from_civil_firstDay)

lemma quot_whole: "0 < b \<Longrightarrow> quot (k * b) b = k"
  by (simp add: quot_def abs_mult sgn_mult mult_sgn_abs)

lemma Hours_whole_days: "Hours (k * 86400000000000) / 24 = of_int k"
proof -
  have e: "k * 86400000000000 = (k * 24) * Hour" by (simp add: Hour_def)
  have q: "quot (k * 86400000000000) Hour = k * 24"
    unfolding e by (rule quot_whole) (simp add: Hour_def)
  have r: "rem (k * 86400000000000) Hour = 0"
    unfolding rem_def q by (simp add: Hour_def)
  show ?thesis unfolding Hours_def q r by simp
qed

lemma trunc_of_int: "trunc (of_int k) = k"
  by (simp add: trunc_def)

text \<open>
  \<^verbatim>\<open>daysSinceFirstWordle\<close> counts the days from 2021-06-19 to the calendar date that
  \<^verbatim>\<open>time.Now().Date()\<close> returns, which is the date in the local time zone.
\<close>

lemma daysSinceFirstWordle_days:
  assumes "Date now = (y, m, dd)" "\<bar>days_from_civil y m dd - 18797\<bar> \<le> 106751"
  shows "daysSinceFirstWordle now = days_from_civil y m dd - 18797"
proof -
  define k where "k = days_from_civil y m dd - 18797"
  have "(days_from_civil y m dd * 86400 - 1624060800) * 1000000000 = k * 86400000000000"
    by (simp add: k_def algebra_simps)
  moreover have "- (2 ^ 63) \<le> k * 86400000000000" "k * 86400000000000 \<le> 2 ^ 63 - 1"
    using assms(2) by (simp_all add: k_def)
  ultimately have "Sub (time_Date y m dd) firstDay = k * 86400000000000"
    by (simp add: Sub_def firstDay_fields time_Date_def)
  then have "daysSinceFirstWordle now = k"
    by (simp add: daysSinceFirstWordle_def assms(1) Hours_whole_days trunc_of_int Let_def)
  then show ?thesis by (simp add: k_def)
qed

lemma Date_2021_06_20:
  assumes "1624147200 \<le> unix now + offset now" "unix now + offset now < 1624233600"
  shows "Date now = (2021, 6, 20)"
proof -
  have "(unix now + offset now) div 86400 = 18798"
    using assms by (intro div_86400) simp_all
  then show ?thesis by (simp add: Date_def civil_from_days_next)
qed

lemma Date_2021_06_19:
  assumes "1624060800 \<le> unix now + offset now" "unix now + offset now < 1624147200"
  shows "Date now = (2021, 6, 19)"
proof -
  have "(unix now + offset now) div 86400 = 18797"
    using assms by (intro div_86400) simp_all
  then show ?thesis by (simp add: Date_def civil_from_days_firstDay)
qed

section \<open>A session for the witnesses\<close>

lemma example_guessesSet:
  "guessesSet (''trace'' @ [CHR 0x0A] @ ''crane'' @ [CHR 0x0A]) = {''TRACE'', ''CRANE''}"
  by (simp add: guessesSet_def guessesReader_loop.simps NewScanner_def Scan_def Text_def
      dropCR_def ToUpper_def upper_rune_def lowercase_def uppercase_def insert_commute)

lemma example_newGame:
  "newGame (''crane'' @ [CHR 0x0D, CHR 0x0A]) (''trace'' @ [CHR 0x0A] @ ''crane'' @ [CHR 0x0A]) 0 hardmode
   = Some (game_literal 0 hardmode ''CRANE'' {''TRACE'', ''CRANE''})"
  using example_guessesSet
  by (simp add: newGame_def answerForDay_lines dropCR_def ToUpper_def upper_rune_def
      lowercase_def uppercase_def)

lemma example_accepted:
  "accepted_guesses (\<lambda>_. []) (game_literal 0 False ''CRANE'' {''TRACE'', ''CRANE''})
     [''hello'', ''trace'', '' crane ''] = [''TRACE'', ''CRANE'']"
  by code_simp

section \<open>The claims of the specification\<close>

text \<open>
  C1, at the input where termle.go departs from it. The claim: for each letter, the
  positions marked correct or present never exceed the letter's frequency in the answer,
  correct matches using the budget first. For the answer ALLOT and the guess LLAMA,
  \<^verbatim>\<open>board.addGuess\<close> of termle.go marks both letters A present, though ALLOT has one A.
  (\<^verbatim>\<open>game.addGuess\<close> follows the rule for every guess and answer: lemma
  \<open>addGuess_two_pass\<close>.)
\<close>

theorem board_addGuess_allot_llama:
  "map_option (\<lambda>b. b ! 0) (board_addGuess termle_newBoard 0 ''LLAMA'' ''ALLOT'') =
     Some [ansi_yellow ''L'', ansi_green ''L'', ansi_yellow ''A'', ansi_black ''M'', ansi_yellow ''A'']
   \<and> count_list ''ALLOT'' (CHR ''A'') = 1"
  by (simp add: board_addGuess_def termle_newBoard_def set_cell_def enumerate_eq_zip numeral_eq_Suc upt_rec)

text \<open>
  C2, as amended: for the answer CRANE and the guess TRACE the evaluation is
  absent, correct, correct, present, correct. The letter A of TRACE stands at the
  position of the A of CRANE, so it is correct, not present.
\<close>

theorem crane_trace:
  assumes "ready g" "answer g = ''CRANE''"
  shows "evaluation g ''TRACE'' =
     Some [blackSquare, greenSquare, greenSquare, yellowSquare, greenSquare]"
  using assms
  by (simp add: ready_def evaluation_def addGuess_def answer_freq_def set_cell_def set_green_def
      enumerate_eq_zip numeral_eq_Suc upt_rec Let_def)

text \<open>
  C2, witness: the game that \<^verbatim>\<open>newGame\<close> builds for the answer CRANE.
\<close>

theorem crane_trace_witness:
  "ready (game_literal 0 False ''CRANE'' {''TRACE''})
   \<and> answer (game_literal 0 False ''CRANE'' {''TRACE''}) = ''CRANE''
   \<and> evaluation (game_literal 0 False ''CRANE'' {''TRACE''}) ''TRACE'' =
       Some [blackSquare, greenSquare, greenSquare, yellowSquare, greenSquare]"
proof -
  have r: "ready (game_literal 0 False ''CRANE'' {''TRACE''})"
    by (rule ready_game_literal)
  have a: "answer (game_literal 0 False ''CRANE'' {''TRACE''}) = ''CRANE''"
    by (simp add: game_literal_def)
  show ?thesis using r a crane_trace[OF r a] by simp
qed

text \<open>
  C2, counterexample: the evaluation that the claim states is not the one computed.
\<close>

theorem crane_trace_not_present:
  "evaluation (game_literal 0 False ''CRANE'' {''TRACE''}) ''TRACE'' \<noteq>
     Some [blackSquare, greenSquare, yellowSquare, yellowSquare, greenSquare]"
  by (simp add: game_literal_def newBoard_def evaluation_def addGuess_def answer_freq_def set_cell_def set_green_def
      enumerate_eq_zip numeral_eq_Suc upt_rec Let_def emptyRune_def)

text \<open>
  C3, as amended: \<^verbatim>\<open>daysSinceFirstWordle\<close> takes the calendar date of \<^verbatim>\<open>time.Now()\<close> in the
  local time zone. At every instant whose local date is 2021-06-20 the day is 1, and in
  general the day is the number of whole days from 2021-06-19 to the local date (within
  the range of a \<^verbatim>\<open>time.Duration\<close>, about 292 years either way).
\<close>

theorem daysSinceFirstWordle_local_date:
  "(1624147200 \<le> unix now + offset now \<and> unix now + offset now < 1624233600 \<longrightarrow>
      Date now = (2021, 6, 20) \<and> daysSinceFirstWordle now = 1)
   \<and> (Date now = (y, m, dd) \<and> \<bar>days_from_civil y m dd - days_from_civil 2021 6 19\<bar> \<le> 106751 \<longrightarrow>
      daysSinceFirstWordle now = days_from_civil y m dd - days_from_civil 2021 6 19)"
proof (intro conjI impI)
  assume h: "1624147200 \<le> unix now + offset now \<and> unix now + offset now < 1624233600"
  then show d: "Date now = (2021, 6, 20)" by (simp add: Date_2021_06_20)
  show "daysSinceFirstWordle now = 1"
    using daysSinceFirstWordle_days[OF d] by (simp add: days_from_civil_next)
next
  assume "Date now = (y, m, dd) \<and> \<bar>days_from_civil y m dd - days_from_civil 2021 6 19\<bar> \<le> 106751"
  then show "daysSinceFirstWordle now = days_from_civil y m dd - days_from_civil 2021 6 19"
    using daysSinceFirstWordle_days[of now y m dd] by (simp add: days_from_civil_firstDay)
qed

text \<open>
  C3, witness: 2021-06-20T02:00:00Z in a zone ten hours east of UTC, where the local date
  is 2021-06-20.
\<close>

theorem daysSinceFirstWordle_local_date_witness:
  "(1624147200::int) \<le> 1624154400 + 36000 \<and> (1624154400::int) + 36000 < 1624233600
   \<and> Date \<lparr>unix = 1624154400, nsec = 0, offset = 36000\<rparr> = (2021, 6, 20)
   \<and> \<bar>days_from_civil 2021 6 20 - days_from_civil 2021 6 19\<bar> \<le> 106751
   \<and> daysSinceFirstWordle \<lparr>unix = 1624154400, nsec = 0, offset = 36000\<rparr> = 1"
  using daysSinceFirstWordle_local_date[of "\<lparr>unix = 1624154400, nsec = 0, offset = 36000\<rparr>" 2021 6 20]
  by (simp add: days_from_civil_next days_from_civil_firstDay)

text \<open>
  C3, counterexample: at 2021-06-20T02:00:00Z in a zone four hours west of UTC the UTC
  date is 2021-06-20, the local date is 2021-06-19 and \<^verbatim>\<open>daysSinceFirstWordle\<close> is 0; and
  at 2021-06-20T12:00:00Z \<^verbatim>\<open>currentDay\<close> of termle.go, which subtracts one, is 0.
\<close>

theorem day_on_2021_06_20_utc:
  "Date (UTC \<lparr>unix = 1624154400, nsec = 0, offset = - 14400\<rparr>) = (2021, 6, 20)
   \<and> daysSinceFirstWordle \<lparr>unix = 1624154400, nsec = 0, offset = - 14400\<rparr> = 0
   \<and> Date (UTC \<lparr>unix = 1624190400, nsec = 0, offset = 0\<rparr>) = (2021, 6, 20)
   \<and> currentDay \<lparr>unix = 1624190400, nsec = 0, offset = 0\<rparr> = 0"
proof -
  have d1: "Date (UTC \<lparr>unix = 1624154400, nsec = 0, offset = - 14400\<rparr>) = (2021, 6, 20)"
    by (simp add: Date_2021_06_20 UTC_def)
  have l: "Date \<lparr>unix = 1624154400, nsec = 0, offset = - 14400\<rparr> = (2021, 6, 19)"
    by (simp add: Date_2021_06_19)
  have d2: "daysSinceFirstWordle \<lparr>unix = 1624154400, nsec = 0, offset = - 14400\<rparr> = 0"
    using daysSinceFirstWordle_days[OF l] by (simp add: days_from_civil_firstDay)
  have d3: "Date (UTC \<lparr>unix = 1624190400, nsec = 0, offset = 0\<rparr>) = (2021, 6, 20)"
    by (simp add: Date_2021_06_20 UTC_def)
  have s: "Sub (UTC \<lparr>unix = 1624190400, nsec = 0, offset = 0\<rparr>) firstDay = 36 * Hour"
    by (simp add: Sub_def UTC_def firstDay_fields Hour_def)
  have q: "quot (36 * Hour) Hour = 36" by (rule quot_whole) (simp add: Hour_def)
  have "Hours (36 * Hour) = 36" unfolding Hours_def rem_def q by simp
  then have d4: "currentDay \<lparr>unix = 1624190400, nsec = 0, offset = 0\<rparr> = 0"
    by (simp add: currentDay_def s trunc_def)
  show ?thesis using d1 d2 d3 d4 by simp
qed

text \<open>
  C4, as amended: hard-mode validation of a guess of five letters. \<^verbatim>\<open>checkHints\<close> checks
  the yellow hints first. When a key of the yellow hints is absent from the guess, it
  returns the error that names such a letter, whatever the order of the keys and whether
  or not a green hint differs as well. Only when every yellow letter occurs in the guess,
  and a green hint is set and differs from the guess at its position, does it return the
  error for such a position. Otherwise it returns nil. In hard mode \<^verbatim>\<open>main\<close> calls it on
  the game as the earlier turns left it, before \<^verbatim>\<open>addGuess\<close>: an error leaves the game as
  it was, and only without an error is the guess scored.
\<close>

theorem checkHints_validation:
  assumes "set keys = dom (yellow (hints g))" "length guess = 5" "length (green (hints g)) = 5"
  shows "((\<exists>l \<in> dom (yellow (hints g)). l \<notin> set guess) \<longrightarrow>
            (\<exists>l. checkHints keys g guess = Some (Some (MustContain l))
                 \<and> l \<in> dom (yellow (hints g)) \<and> l \<notin> set guess))
     \<and> ((\<forall>l \<in> dom (yellow (hints g)). l \<in> set guess)
          \<and> (\<exists>i < 5. green (hints g) ! i \<noteq> emptyRune \<and> guess ! i \<noteq> green (hints g) ! i) \<longrightarrow>
            (\<exists>i < 5. checkHints keys g guess = Some (Some (PositionMustContain i (green (hints g) ! i)))
                 \<and> green (hints g) ! i \<noteq> emptyRune \<and> guess ! i \<noteq> green (hints g) ! i))
     \<and> ((\<forall>l \<in> dom (yellow (hints g)). l \<in> set guess)
          \<and> (\<forall>i < 5. green (hints g) ! i = emptyRune \<or> guess ! i = green (hints g) ! i) \<longrightarrow>
            checkHints keys g guess = Some None)
     \<and> (hardMode g \<and> guess = ToUpper (TrimSpace text) \<and> valid guess \<and> guess \<in> validGuesses g
          \<and> range_keys (yellow (hints g)) = keys \<longrightarrow>
            (\<forall>err. checkHints keys g guess = Some (Some err) \<longrightarrow>
                main_step range_keys g text = Some (Some (HardMode err), g))
            \<and> (checkHints keys g guess = Some None \<longrightarrow>
                main_step range_keys g text = map_option (Pair None) (addGuess g guess)))"
proof (intro conjI impI)
  assume "\<exists>l \<in> dom (yellow (hints g)). l \<notin> set guess"
  then have "checkHints_yellows keys guess \<noteq> None"
    using assms(1) by (auto simp: checkHints_yellows_None)
  then obtain err where err: "checkHints_yellows keys guess = Some err" by auto
  then obtain l where "err = MustContain l" "l \<in> set keys" "l \<notin> set guess"
    using checkHints_yellows_Some by blast
  then show "\<exists>l. checkHints keys g guess = Some (Some (MustContain l))
                 \<and> l \<in> dom (yellow (hints g)) \<and> l \<notin> set guess"
    using err assms(1) by (auto simp: checkHints_def)
next
  assume h: "(\<forall>l \<in> dom (yellow (hints g)). l \<in> set guess)
          \<and> (\<exists>i < 5. green (hints g) ! i \<noteq> emptyRune \<and> guess ! i \<noteq> green (hints g) ! i)"
  then have y: "checkHints_yellows keys guess = None"
    using assms(1) by (auto simp: checkHints_yellows_None)
  obtain i where i: "i < 5" "green (hints g) ! i \<noteq> emptyRune \<and> guess ! i \<noteq> green (hints g) ! i"
    and least: "\<forall>j < i. \<not> (green (hints g) ! j \<noteq> emptyRune \<and> guess ! j \<noteq> green (hints g) ! j)"
    using first_mismatch[of 5 "\<lambda>i. green (hints g) ! i \<noteq> emptyRune \<and> guess ! i \<noteq> green (hints g) ! i"] h
    by blast
  have "checkHints_greens (enumerate 0 (green (hints g))) guess =
      Some (Some (PositionMustContain (0 + i) (green (hints g) ! i)))"
    using assms(2,3) i least by (intro checkHints_greens_first) auto
  then show "\<exists>i < 5. checkHints keys g guess = Some (Some (PositionMustContain i (green (hints g) ! i)))
                 \<and> green (hints g) ! i \<noteq> emptyRune \<and> guess ! i \<noteq> green (hints g) ! i"
    using y i by (auto simp: checkHints_def)
next
  assume h: "(\<forall>l \<in> dom (yellow (hints g)). l \<in> set guess)
          \<and> (\<forall>i < 5. green (hints g) ! i = emptyRune \<or> guess ! i = green (hints g) ! i)"
  then have y: "checkHints_yellows keys guess = None"
    using assms(1) by (auto simp: checkHints_yellows_None)
  have "checkHints_greens (enumerate 0 (green (hints g))) guess = Some None"
    using assms(2,3) h by (intro checkHints_greens_ok) auto
  then show "checkHints keys g guess = Some None"
    using y by (simp add: checkHints_def)
next
  assume h: "hardMode g \<and> guess = ToUpper (TrimSpace text) \<and> valid guess \<and> guess \<in> validGuesses g
          \<and> range_keys (yellow (hints g)) = keys"
  show "\<forall>err. checkHints keys g guess = Some (Some err) \<longrightarrow>
                main_step range_keys g text = Some (Some (HardMode err), g)"
    using h by (auto simp: main_step_def Let_def)
  show "main_step range_keys g text = map_option (Pair None) (addGuess g guess)"
    if "checkHints keys g guess = Some None"
    using h that by (auto simp: main_step_def Let_def)
qed

text \<open>
  C4, witness: after TRACE against CRANE the hints are the yellow letter C and the green
  letters R, A and E at positions 1, 2 and 4. The guess BRAKE lacks C; the guess CHASE
  holds C and differs at position 1 only; the guess CRATE passes.
\<close>

theorem checkHints_validation_witness:
  "checkHints [CHR ''C''] ((game_literal 0 True ''CRANE'' {''TRACE''})
        \<lparr>hints := \<lparr>yellow = [CHR ''C'' \<mapsto> True],
                    green = [emptyRune, CHR ''R'', CHR ''A'', emptyRune, CHR ''E'']\<rparr>\<rparr>) ''BRAKE''
       = Some (Some (MustContain (CHR ''C'')))
   \<and> checkHints [CHR ''C''] ((game_literal 0 True ''CRANE'' {''TRACE''})
        \<lparr>hints := \<lparr>yellow = [CHR ''C'' \<mapsto> True],
                    green = [emptyRune, CHR ''R'', CHR ''A'', emptyRune, CHR ''E'']\<rparr>\<rparr>) ''CHASE''
       = Some (Some (PositionMustContain 1 (CHR ''R'')))
   \<and> checkHints [CHR ''C''] ((game_literal 0 True ''CRANE'' {''TRACE''})
        \<lparr>hints := \<lparr>yellow = [CHR ''C'' \<mapsto> True],
                    green = [emptyRune, CHR ''R'', CHR ''A'', emptyRune, CHR ''E'']\<rparr>\<rparr>) ''CRATE''
       = Some None"
proof -
  define g where "g = (game_literal 0 True ''CRANE'' {''TRACE''})
        \<lparr>hints := \<lparr>yellow = [CHR ''C'' \<mapsto> True],
                    green = [emptyRune, CHR ''R'', CHR ''A'', emptyRune, CHR ''E'']\<rparr>\<rparr>"
  have k: "set [CHR ''C''] = dom (yellow (hints g))" and l: "length (green (hints g)) = 5"
    by (simp_all add: g_def)
  have y: "dom (yellow (hints g)) = {CHR ''C''}"
    and gr: "green (hints g) = [emptyRune, CHR ''R'', CHR ''A'', emptyRune, CHR ''E'']"
    by (simp_all add: g_def)
  have five: "(\<exists>i < 5. P i) \<longleftrightarrow> P 0 \<or> P 1 \<or> P 2 \<or> P 3 \<or> P (4::nat)" for P
  proof -
    have "{..<5::nat} = {0, 1, 2, 3, 4}" by auto
    then have "(\<exists>i \<in> {..<5}. P i) \<longleftrightarrow> P 0 \<or> P 1 \<or> P 2 \<or> P 3 \<or> P 4" by simp
    then show ?thesis by (simp add: Bex_def)
  qed
  have all5: "(\<forall>i < 5. P i) \<longleftrightarrow> P 0 \<and> P 1 \<and> P 2 \<and> P 3 \<and> P (4::nat)" for P
    using five[of "\<lambda>i. \<not> P i"] by blast
  have brake: "\<exists>l \<in> dom (yellow (hints g)). l \<notin> set ''BRAKE''"
    by (simp add: y)
  have "\<exists>l. checkHints [CHR ''C''] g ''BRAKE'' = Some (Some (MustContain l))
       \<and> l \<in> dom (yellow (hints g)) \<and> l \<notin> set ''BRAKE''"
    using checkHints_validation[OF k _ l, of "''BRAKE''"] brake by simp
  then have w1: "checkHints [CHR ''C''] g ''BRAKE'' = Some (Some (MustContain (CHR ''C'')))"
    by (auto simp: y)
  have chase: "(\<forall>l \<in> dom (yellow (hints g)). l \<in> set ''CHASE'')
      \<and> (\<exists>i < 5. green (hints g) ! i \<noteq> emptyRune \<and> ''CHASE'' ! i \<noteq> green (hints g) ! i)"
    by (simp add: y gr five emptyRune_def)
  have "\<exists>i < 5. checkHints [CHR ''C''] g ''CHASE'' = Some (Some (PositionMustContain i (green (hints g) ! i)))
       \<and> green (hints g) ! i \<noteq> emptyRune \<and> ''CHASE'' ! i \<noteq> green (hints g) ! i"
    using checkHints_validation[OF k _ l, of "''CHASE''"] chase by simp
  then have w2: "checkHints [CHR ''C''] g ''CHASE'' = Some (Some (PositionMustContain 1 (CHR ''R'')))"
    by (auto simp: gr five emptyRune_def)
  have crate: "(\<forall>l \<in> dom (yellow (hints g)). l \<in> set ''CRATE'')
      \<and> (\<forall>i < 5. green (hints g) ! i = emptyRune \<or> ''CRATE'' ! i = green (hints g) ! i)"
    by (simp add: y gr all5)
  have w3: "checkHints [CHR ''C''] g ''CRATE'' = Some None"
    using checkHints_validation[OF k _ l, of "''CRATE''"] crate by simp
  show ?thesis using w1 w2 w3 unfolding g_def by (intro conjI)
qed

text \<open>
  C4, counterexample: scoring TRACE against CRANE leaves exactly these hints. The guess
  BLOKE differs from the green letter R at position 1, and it lacks the yellow letter C:
  \<^verbatim>\<open>checkHints\<close> returns the error of the missing letter, not the error of the position.
\<close>

theorem checkHints_yellow_first:
  "map_option hints (addGuess (game_literal 0 True ''CRANE'' {''TRACE''}) ''TRACE'')
     = Some \<lparr>yellow = [CHR ''C'' \<mapsto> True],
             green = [emptyRune, CHR ''R'', CHR ''A'', emptyRune, CHR ''E'']\<rparr>
   \<and> CHR ''R'' \<noteq> emptyRune \<and> ''BLOKE'' ! 1 \<noteq> CHR ''R''
   \<and> checkHints [CHR ''C''] ((game_literal 0 True ''CRANE'' {''TRACE''})
        \<lparr>hints := \<lparr>yellow = [CHR ''C'' \<mapsto> True],
                    green = [emptyRune, CHR ''R'', CHR ''A'', emptyRune, CHR ''E'']\<rparr>\<rparr>) ''BLOKE''
       = Some (Some (MustContain (CHR ''C'')))
   \<and> checkHints [CHR ''C''] ((game_literal 0 True ''CRANE'' {''TRACE''})
        \<lparr>hints := \<lparr>yellow = [CHR ''C'' \<mapsto> True],
                    green = [emptyRune, CHR ''R'', CHR ''A'', emptyRune, CHR ''E'']\<rparr>\<rparr>) ''BLOKE''
       \<noteq> Some (Some (PositionMustContain 1 (CHR ''R'')))"
proof -
  have a: "map_option hints (addGuess (game_literal 0 True ''CRANE'' {''TRACE''}) ''TRACE'')
     = Some \<lparr>yellow = [CHR ''C'' \<mapsto> True],
             green = [emptyRune, CHR ''R'', CHR ''A'', emptyRune, CHR ''E'']\<rparr>"
    by (simp add: game_literal_def newBoard_def addGuess_def answer_freq_def set_cell_def
        set_green_def enumerate_eq_zip numeral_eq_Suc upt_rec Let_def)
  have c: "checkHints [CHR ''C''] ((game_literal 0 True ''CRANE'' {''TRACE''})
        \<lparr>hints := \<lparr>yellow = [CHR ''C'' \<mapsto> True],
                    green = [emptyRune, CHR ''R'', CHR ''A'', emptyRune, CHR ''E'']\<rparr>\<rparr>) ''BLOKE''
       = Some (Some (MustContain (CHR ''C'')))"
    by (simp add: checkHints_def)
  show ?thesis using a c by (simp add: emptyRune_def)
qed

text \<open>
  C5: a session from \<^verbatim>\<open>newGame\<close> with an answer of five letters, on any input. The loop
  returns; the recorded turn count is the number of accepted guesses, at most six; six
  accepted guesses, none the answer, leave the game complete and not won; when the k-th
  accepted guess is the answer it is the last one, and the game is complete and won with
  turn count k; and on a complete game the loop accepts nothing more and changes nothing.
\<close>

theorem session_outcome:
  assumes "newGame answers_txt guesses_txt d hardmode = Some g0" "length (answer g0) = 5"
  shows "\<exists>g. main_loop range_keys g0 stdin = Some g
     \<and> currentTurn g = int (length (accepted_guesses range_keys g0 stdin))
     \<and> length (accepted_guesses range_keys g0 stdin) \<le> 6
     \<and> (complete g \<longleftrightarrow> won g \<or> length (accepted_guesses range_keys g0 stdin) = 6)
     \<and> (length (accepted_guesses range_keys g0 stdin) = 6
          \<and> answer g0 \<notin> set (accepted_guesses range_keys g0 stdin) \<longrightarrow> complete g \<and> \<not> won g)
     \<and> (\<forall>k. 1 \<le> k \<and> k \<le> length (accepted_guesses range_keys g0 stdin)
              \<and> accepted_guesses range_keys g0 stdin ! (k - 1) = answer g0 \<longrightarrow>
            k = length (accepted_guesses range_keys g0 stdin)
            \<and> complete g \<and> won g \<and> currentTurn g = int k)
     \<and> (complete g \<longrightarrow>
          (\<forall>more. main_loop range_keys g more = Some g \<and> accepted_guesses range_keys g more = []))"
proof -
  define acc where "acc = accepted_guesses range_keys g0 stdin"
  obtain a where g0: "g0 = game_literal d hardmode a (guessesSet guesses_txt)"
    using newGame_literal[OF assms(1)] by blast
  have inv0: "game_inv g0" and start: "currentTurn g0 = 0" "\<not> won g0"
    unfolding g0 by (simp_all add: game_inv_literal) (simp_all add: game_literal_def)
  obtain g where run: "main_loop range_keys g0 stdin = Some g"
    using main_loop_total[OF inv0, of range_keys stdin] assms(2) by auto
  have inv: "game_inv g" and ct: "currentTurn g = int (length acc)"
    and won: "won g \<longleftrightarrow> acc \<noteq> [] \<and> last acc = answer g0"
    and before: "answer g0 \<notin> set (butlast acc)"
    using main_loop_inv[OF inv0 run] start by (simp_all add: acc_def)
  have le: "length acc \<le> 6" using inv ct by (simp add: game_inv_def)
  have comp: "complete g \<longleftrightarrow> won g \<or> length acc = 6"
    using inv ct by (auto simp: game_inv_def)
  have lost: "complete g \<and> \<not> won g" if "length acc = 6 \<and> answer g0 \<notin> set acc"
  proof -
    have "acc \<noteq> []" using that by auto
    then have "last acc \<in> set acc" by simp
    then show ?thesis using that comp won by auto
  qed
  have wonk: "k = length acc \<and> complete g \<and> won g \<and> currentTurn g = int k"
    if "1 \<le> k \<and> k \<le> length acc \<and> acc ! (k - 1) = answer g0" for k
  proof -
    have k: "k = length acc"
    proof (rule ccontr)
      assume "k \<noteq> length acc"
      then have "k - 1 < length (butlast acc)" using that by auto
      then have "butlast acc ! (k - 1) \<in> set (butlast acc)" by (rule nth_mem)
      moreover have "butlast acc ! (k - 1) = acc ! (k - 1)"
        using \<open>k - 1 < length (butlast acc)\<close> by (simp add: nth_butlast)
      ultimately show False using that before by simp
    qed
    have "acc \<noteq> []" using that by auto
    then have "last acc = answer g0" using that k by (simp add: last_conv_nth)
    then show ?thesis using k comp won ct \<open>acc \<noteq> []\<close> by simp
  qed
  have fin: "main_loop range_keys g more = Some g \<and> accepted_guesses range_keys g more = []"
    if "complete g" for more
    using that by (simp add: main_loop_complete accepted_guesses_complete)
  show ?thesis
    using run ct le comp lost wonk fin unfolding acc_def by blast
qed

text \<open>
  C5, witness: the answer CRANE; the line hello is rejected, TRACE is accepted, CRANE wins
  on turn 2.
\<close>

theorem session_outcome_witness:
  "newGame (''crane'' @ [CHR 0x0D, CHR 0x0A]) (''trace'' @ [CHR 0x0A] @ ''crane'' @ [CHR 0x0A]) 0 False
     = Some (game_literal 0 False ''CRANE'' {''TRACE'', ''CRANE''})
   \<and> length (answer (game_literal 0 False ''CRANE'' {''TRACE'', ''CRANE''})) = 5
   \<and> accepted_guesses (\<lambda>_. []) (game_literal 0 False ''CRANE'' {''TRACE'', ''CRANE''})
        [''hello'', ''trace'', '' crane ''] = [''TRACE'', ''CRANE'']
   \<and> (\<exists>g. main_loop (\<lambda>_. []) (game_literal 0 False ''CRANE'' {''TRACE'', ''CRANE''})
              [''hello'', ''trace'', '' crane ''] = Some g
          \<and> complete g \<and> won g \<and> currentTurn g = 2)"
proof -
  have n: "newGame (''crane'' @ [CHR 0x0D, CHR 0x0A]) (''trace'' @ [CHR 0x0A] @ ''crane'' @ [CHR 0x0A]) 0 False
     = Some (game_literal 0 False ''CRANE'' {''TRACE'', ''CRANE''})"
    by (rule example_newGame)
  have l: "length (answer (game_literal 0 False ''CRANE'' {''TRACE'', ''CRANE''})) = 5"
    and a: "answer (game_literal 0 False ''CRANE'' {''TRACE'', ''CRANE''}) = ''CRANE''"
    by (simp_all add: game_literal_def)
  obtain g where run: "main_loop (\<lambda>_. []) (game_literal 0 False ''CRANE'' {''TRACE'', ''CRANE''})
              [''hello'', ''trace'', '' crane ''] = Some g"
    and k: "\<forall>k. 1 \<le> k \<and> k \<le> length [''TRACE'', ''CRANE'']
              \<and> [''TRACE'', ''CRANE''] ! (k - 1) = ''CRANE'' \<longrightarrow>
            k = length [''TRACE'', ''CRANE'']
            \<and> complete g \<and> won g \<and> currentTurn g = int k"
    using session_outcome[OF n l, of "\<lambda>_. []" "[''hello'', ''trace'', '' crane '']"]
    unfolding example_accepted a by blast
  have "complete g \<and> won g \<and> currentTurn g = 2"
    using k[rule_format, of 2] by simp
  then show ?thesis using n l example_accepted run by blast
qed

text \<open>
  C6: a rejected line leaves the whole game as it was (so its turn counters, board and
  hints), in \<^verbatim>\<open>main\<close> of both implementations; the three rejections are the invalid
  format, the word outside the list, and in hard mode the error of \<^verbatim>\<open>checkHints\<close>.
\<close>

theorem rejected_submission_frame:
  "(main_step range_keys g text = Some (Some rejected, g') \<longrightarrow> g' = g)
   \<and> (termle_main_step dict a v text = Some (Some rejected, fl, v') \<longrightarrow> v' = v \<and> fl = Continues)
   \<and> (\<not> valid (ToUpper (TrimSpace text)) \<longrightarrow>
        main_step range_keys g text = Some (Some InvalidFormat, g)
        \<and> termle_main_step dict a v text = Some (Some InvalidFormat, Continues, v))
   \<and> (valid (ToUpper (TrimSpace text)) \<and> ToUpper (TrimSpace text) \<notin> validGuesses g \<longrightarrow>
        main_step range_keys g text = Some (Some NotInWordList, g))
   \<and> (valid (ToUpper (TrimSpace text)) \<and> ToUpper (TrimSpace text) \<notin> dict \<longrightarrow>
        termle_main_step dict a v text = Some (Some NotInWordList, Continues, v))
   \<and> (valid (ToUpper (TrimSpace text)) \<and> ToUpper (TrimSpace text) \<in> validGuesses g \<and> hardMode g
        \<and> checkHints (range_keys (yellow (hints g))) g (ToUpper (TrimSpace text)) = Some (Some err) \<longrightarrow>
        main_step range_keys g text = Some (Some (HardMode err), g))"
  by (auto simp: main_step_def termle_main_step_def Let_def split: if_splits option.splits)

text \<open>
  C6, witness: the line abc is rejected for its format.
\<close>

theorem rejected_submission_frame_witness:
  "\<not> valid (ToUpper (TrimSpace ''abc''))
   \<and> main_step (\<lambda>_. []) (game_literal 0 True ''CRANE'' {''TRACE'', ''CRANE''}) ''abc''
       = Some (Some InvalidFormat, game_literal 0 True ''CRANE'' {''TRACE'', ''CRANE''})
   \<and> termle_main_step {''TRACE'', ''CRANE''} ''CRANE''
        \<lparr>t_b = termle_newBoard, t_currentTurn = 0, t_turnsRemaining = 6\<rparr> ''abc''
       = Some (Some InvalidFormat, Continues,
               \<lparr>t_b = termle_newBoard, t_currentTurn = 0, t_turnsRemaining = 6\<rparr>)"
proof -
  have nv: "\<not> valid (ToUpper (TrimSpace ''abc''))"
    by (simp add: valid_def ToUpper_def TrimSpace_def isSpace_def)
  show ?thesis
    using rejected_submission_frame[of "\<lambda>_. []" "game_literal 0 True ''CRANE'' {''TRACE'', ''CRANE''}"
        "''abc''" InvalidFormat "game_literal 0 True ''CRANE'' {''TRACE'', ''CRANE''}"
        "{''TRACE'', ''CRANE''}" "''CRANE''"
        "\<lparr>t_b = termle_newBoard, t_currentTurn = 0, t_turnsRemaining = 6\<rparr>"] nv
    by blast
qed

text \<open>
  C7: on a file of fixed-width records (five bytes without a newline, then a carriage
  return and a newline), shorter than \<open>2 ^ 63\<close> bytes, seeking to \<open>d * 7\<close> and scanning to
  line \<open>d\<close> return the same answer for every day \<open>d\<close> within the list.
\<close>

theorem answer_stores_agree:
  assumes "\<forall>w \<in> set ws. length w = 5 \<and> CHR 0x0A \<notin> set w"
    and "0 \<le> d" "nat d < length ws" "7 * int (length ws) < 2 ^ 63"
  shows "termle_answerForDay (fixed_width_records ws) d = Some (ToUpper (ws ! nat d))
     \<and> answerForDay (fixed_width_records ws) d = Some (ToUpper (ws ! nat d))"
proof
  have len: "length (fixed_width_records ws) = 7 * length ws"
    using assms(1) by (intro length_records) simp
  have d: "d * 7 < 2 ^ 63" "0 \<le> d * 7" "d * 7 + 7 \<le> 7 * int (length ws)"
    using assms(2,3,4) by simp_all
  have off: "int64 (int64 (d * 7)) = d * 7"
    using d by (simp add: int64_id)
  have nat_off: "nat (d * 7) = 7 * nat d"
    using assms(2) by (simp add: nat_mult_distrib)
  have n: "min 5 (length (fixed_width_records ws) - nat (d * 7)) = 5"
    using d assms(2) unfolding len nat_off by simp
  have "take 5 (drop (7 * nat d) (fixed_width_records ws)) = ws ! nat d"
    using assms(1,3) by (intro take_records) simp_all
  then show "termle_answerForDay (fixed_width_records ws) d = Some (ToUpper (ws ! nat d))"
    using d unfolding termle_answerForDay_def off Let_def n
    by (simp add: len nat_off)
next
  have lines: "split_lines [] (fixed_width_records ws) = ws"
    using assms(1) by (intro split_lines_records) simp
  have "d < 2 ^ 63 - 1" using assms(3,4) by simp
  then show "answerForDay (fixed_width_records ws) d = Some (ToUpper (ws ! nat d))"
    using assms(2,3) by (simp add: answerForDay_lines lines)
qed

text \<open>
  C7, witness: the second record of a file of two.
\<close>

theorem answer_stores_agree_witness:
  "length ''crane'' = 5 \<and> CHR 0x0A \<notin> set ''crane'' \<and> length ''allot'' = 5 \<and> CHR 0x0A \<notin> set ''allot''
   \<and> (0::int) \<le> 1 \<and> nat 1 < length [''crane'', ''allot'']
   \<and> 7 * int (length [''crane'', ''allot'']) < 2 ^ 63
   \<and> termle_answerForDay (fixed_width_records [''crane'', ''allot'']) 1 = Some ''ALLOT''
   \<and> answerForDay (fixed_width_records [''crane'', ''allot'']) 1 = Some ''ALLOT''"
proof -
  have h: "\<forall>w \<in> set [''crane'', ''allot'']. length w = 5 \<and> CHR 0x0A \<notin> set w"
    "(0::int) \<le> 1" "nat 1 < length [''crane'', ''allot'']"
    "7 * int (length [''crane'', ''allot'']) < 2 ^ 63"
    by simp_all
  have u: "ToUpper ([''crane'', ''allot''] ! nat 1) = ''ALLOT''"
    by (simp add: ToUpper_def upper_rune_def lowercase_def uppercase_def)
  show ?thesis
    using answer_stores_agree[OF h] h unfolding u by simp
qed

text \<open>
  C8: a guess equal to the answer is marked correct at all five positions, by
  \<^verbatim>\<open>game.addGuess\<close> (on a ready game) and by \<^verbatim>\<open>board.addGuess\<close> of termle.go (on a row of
  five cells).
\<close>

theorem guess_equal_answer_all_correct:
  "(ready g \<and> length (answer g) = 5 \<longrightarrow>
      evaluation g (answer g) = Some (replicate 5 greenSquare))
   \<and> (0 \<le> turn \<and> nat turn < length b \<and> length (b ! nat turn) = 5 \<and> length a = 5 \<longrightarrow>
      (\<exists>b'. board_addGuess b turn a a = Some b' \<and> b' ! nat turn = map (\<lambda>c. ansi_green [c]) a))"
proof (intro conjI impI)
  assume h: "ready g \<and> length (answer g) = 5"
  then obtain F where F: "F \<subseteq> {i. i < length (answer g)}"
    and ev: "evaluation g (answer g) = Some (map (\<lambda>i.
           if i < length (answer g)
           then (if answer g ! i = answer g ! i then greenSquare
                 else if i \<in> F then yellowSquare else blackSquare)
           else blackSquare) [0..<5])"
    using evaluation_ready[of g "answer g"] by auto
  show "evaluation g (answer g) = Some (replicate 5 greenSquare)"
    unfolding ev using h by (auto intro!: nth_equalityI)
next
  assume h: "0 \<le> turn \<and> nat turn < length b \<and> length (b ! nat turn) = 5 \<and> length a = 5"
  then obtain row where eq: "board_addGuess b turn a a = Some (b[nat turn := row])"
    and len: "length row = length (b ! nat turn)"
    and nth: "\<forall>i < length (b ! nat turn). row ! i =
          (if i < length a
           then (if a ! i = a ! i then ansi_green [a ! i]
                 else if a ! i \<in> set a then ansi_yellow [a ! i]
                 else ansi_black [a ! i])
           else b ! nat turn ! i)"
    using board_addGuess_eq[of turn b a a] by auto
  have "row = map (\<lambda>c. ansi_green [c]) a"
    using len nth h by (auto intro!: nth_equalityI)
  then show "\<exists>b'. board_addGuess b turn a a = Some b' \<and> b' ! nat turn = map (\<lambda>c. ansi_green [c]) a"
    using eq h by simp
qed

text \<open>
  C8, witness: the answer CRANE on a new game and on a new board.
\<close>

theorem guess_equal_answer_all_correct_witness:
  "ready (game_literal 0 False ''CRANE'' {}) \<and> length (answer (game_literal 0 False ''CRANE'' {})) = 5
   \<and> evaluation (game_literal 0 False ''CRANE'' {}) ''CRANE'' = Some (replicate 5 greenSquare)
   \<and> (0::int) \<le> 0 \<and> nat 0 < length termle_newBoard \<and> length (termle_newBoard ! nat 0) = 5
   \<and> length ''CRANE'' = 5
   \<and> (\<exists>b'. board_addGuess termle_newBoard 0 ''CRANE'' ''CRANE'' = Some b'
          \<and> b' ! nat 0 = map (\<lambda>c. ansi_green [c]) ''CRANE'')"
proof -
  have r: "ready (game_literal 0 False ''CRANE'' {})"
    by (rule ready_game_literal)
  have a: "answer (game_literal 0 False ''CRANE'' {}) = ''CRANE''"
    by (simp add: game_literal_def)
  have t: "nat 0 < length termle_newBoard" "length (termle_newBoard ! nat 0) = 5"
    by (simp_all add: termle_newBoard_def)
  show ?thesis
    using guess_equal_answer_all_correct[of "game_literal 0 False ''CRANE'' {}" 0 termle_newBoard "''CRANE''"]
      r a t by simp
qed

text \<open>
  C9: \<^verbatim>\<open>newGame\<close> starts at turn 0 with six turns remaining, and in every state that the
  loop of \<^verbatim>\<open>main\<close> reaches from there, on any input, the current turn and the turns
  remaining add up to six and the current turn is between 0 and 6.
\<close>

theorem turn_counter_invariant:
  assumes "newGame answers_txt guesses_txt d hardmode = Some g0"
    and "main_loop range_keys g0 stdin = Some g"
  shows "currentTurn g0 = 0 \<and> turnsRemaining g0 = 6
     \<and> currentTurn g + turnsRemaining g = 6 \<and> 0 \<le> currentTurn g \<and> currentTurn g \<le> 6"
proof -
  obtain a where g0: "g0 = game_literal d hardmode a (guessesSet guesses_txt)"
    using newGame_literal[OF assms(1)] by blast
  have inv0: "game_inv g0" unfolding g0 by (rule game_inv_literal)
  have "game_inv g" using main_loop_inv[OF inv0 assms(2)] by simp
  then show ?thesis by (simp add: game_inv_def) (simp add: g0 game_literal_def)
qed

text \<open>
  C9, witness: the session of the witness of C5.
\<close>

theorem turn_counter_invariant_witness:
  "newGame (''crane'' @ [CHR 0x0D, CHR 0x0A]) (''trace'' @ [CHR 0x0A] @ ''crane'' @ [CHR 0x0A]) 0 False
     = Some (game_literal 0 False ''CRANE'' {''TRACE'', ''CRANE''})
   \<and> (\<exists>g. main_loop (\<lambda>_. []) (game_literal 0 False ''CRANE'' {''TRACE'', ''CRANE''})
              [''hello'', ''trace'', '' crane ''] = Some g
          \<and> currentTurn g + turnsRemaining g = 6 \<and> 0 \<le> currentTurn g \<and> currentTurn g \<le> 6)"
proof -
  have n: "newGame (''crane'' @ [CHR 0x0D, CHR 0x0A]) (''trace'' @ [CHR 0x0A] @ ''crane'' @ [CHR 0x0A]) 0 False
     = Some (game_literal 0 False ''CRANE'' {''TRACE'', ''CRANE''})"
    by (rule example_newGame)
  have "5 \<le> length (answer (game_literal 0 False ''CRANE'' {''TRACE'', ''CRANE''}))"
    by (simp add: game_literal_def)
  then obtain g where run: "main_loop (\<lambda>_. []) (game_literal 0 False ''CRANE'' {''TRACE'', ''CRANE''})
              [''hello'', ''trace'', '' crane ''] = Some g"
    using main_loop_total[OF game_inv_literal] by blast
  show ?thesis
    using turn_counter_invariant[OF n run] n run by blast
qed

text \<open>
  C10, as amended: for a negative day, and for a day at or past the end of the list and
  below the largest \<^verbatim>\<open>int\<close>, \<^verbatim>\<open>answerForDay\<close> by scanning returns the empty string; the
  game then has the empty answer, \<^verbatim>\<open>addGuess\<close> panics on every guess that is not empty,
  and no input wins.
\<close>

theorem answerForDay_out_of_range:
  assumes "d < 0 \<or> int (length (split_lines [] answers_txt)) \<le> d" and "d < 2 ^ 63 - 1"
  shows "answerForDay answers_txt d = Some []
     \<and> (\<exists>g0. newGame answers_txt guesses_txt d hardmode = Some g0 \<and> answer g0 = []
          \<and> (\<forall>guess. guess \<noteq> [] \<longrightarrow> addGuess g0 guess = None)
          \<and> (\<forall>range_keys stdin g. main_loop range_keys g0 stdin = Some g \<longrightarrow> \<not> won g))"
proof -
  have a: "answerForDay answers_txt d = Some []"
    using assms by (auto simp: answerForDay_lines)
  define g0 where "g0 = game_literal d hardmode [] (guessesSet guesses_txt)"
  have n: "newGame answers_txt guesses_txt d hardmode = Some g0"
    by (simp add: newGame_def a g0_def)
  have e: "answer g0 = []" and nw: "\<not> won g0"
    by (simp_all add: g0_def game_literal_def)
  have p: "addGuess g0 guess = None" if "guess \<noteq> []" for guess
    using that e by (intro addGuess_short) simp
  have w: "\<not> won g" if "main_loop range_keys g0 stdin = Some g" for range_keys stdin g
    using main_loop_empty_answer[OF e that] nw by simp
  show ?thesis using a n e p w by blast
qed

text \<open>
  C10, witness: day 5 of a list of one answer.
\<close>

theorem answerForDay_out_of_range_witness:
  "int (length (split_lines [] (''crane'' @ [CHR 0x0D, CHR 0x0A]))) \<le> 5
   \<and> (5::int) < 2 ^ 63 - 1
   \<and> answerForDay (''crane'' @ [CHR 0x0D, CHR 0x0A]) 5 = Some []
   \<and> (\<exists>g0. newGame (''crane'' @ [CHR 0x0D, CHR 0x0A]) ''trace'' 5 False = Some g0 \<and> answer g0 = []
          \<and> addGuess g0 ''TRACE'' = None)"
proof -
  have past: "int (length (split_lines [] (''crane'' @ [CHR 0x0D, CHR 0x0A]))) \<le> 5"
    by (simp add: dropCR_def)
  then have h: "(5::int) < 0 \<or> int (length (split_lines [] (''crane'' @ [CHR 0x0D, CHR 0x0A]))) \<le> 5"
    "(5::int) < 2 ^ 63 - 1"
    by simp_all
  note inst = answerForDay_out_of_range[OF h, of "''trace''" False]
  have a: "answerForDay (''crane'' @ [CHR 0x0D, CHR 0x0A]) 5 = Some []"
    using inst by (rule conjunct1)
  obtain g0 where n: "newGame (''crane'' @ [CHR 0x0D, CHR 0x0A]) ''trace'' 5 False = Some g0"
    and e: "answer g0 = []"
    and p: "\<forall>guess. guess \<noteq> [] \<longrightarrow> addGuess g0 guess = None"
    using inst[THEN conjunct2] by (elim exE conjE)
  have "addGuess g0 ''TRACE'' = None"
    using p[rule_format, of "''TRACE''"] by simp
  then have "\<exists>g0. newGame (''crane'' @ [CHR 0x0D, CHR 0x0A]) ''trace'' 5 False = Some g0 \<and> answer g0 = []
          \<and> addGuess g0 ''TRACE'' = None"
    using n e by (intro exI[of _ g0]) simp
  then show ?thesis using past h(2) a by (intro conjI)
qed

text \<open>
  C10, counterexample: at the largest \<^verbatim>\<open>int\<close>, which is past the end of the list,
  \<^verbatim>\<open>i <= day\<close> holds for every \<^verbatim>\<open>int\<close> \<open>i\<close> and the loop of \<^verbatim>\<open>answerForDay\<close> does not end.
\<close>

theorem answerForDay_largest_int:
  "int (length (split_lines [] (''crane'' @ [CHR 0x0D, CHR 0x0A]))) \<le> 9223372036854775807
   \<and> answerForDay (''crane'' @ [CHR 0x0D, CHR 0x0A]) 9223372036854775807 = None"
proof -
  have "answerForDay_loop 0 9223372036854775807 s = None" for s
    using answerForDay_loop_max[of 0 9223372036854775807 s] by (cases "answerForDay_loop 0 9223372036854775807 s") auto
  then show ?thesis by (simp add: answerForDay_def dropCR_def)
qed

end
